theory Spec2Isabelle
  imports Complex_Main "HOL-Library.AList"
begin

section \<open>Text primitives used by the monitor\<close>

text \<open>
  Python strings are modelled as \<open>string\<close>, read as the UTF-8 bytes of the log text.
  The character classes below are the ASCII part of Python's classes: a byte above
  127 is no digit, no white space and has no case.  White space is what
  \<open>str.isspace\<close>, \<open>str.strip\<close> and the pattern \<open>\s\<close> accept below 128.

  Python's own classes are larger: \<open>\s\<close> and \<open>str.strip\<close> also accept the white space
  outside ASCII (the no-break space is one) and \<open>\d\<close> the decimal digits of other scripts,
  and the file is decoded with \<open>errors='ignore'\<close>, which drops the bytes that are no
  UTF-8.  On a line with such a character or byte the classifier below can read the
  line differently from the source.  The properties of the updater are therefore
  proved for every event, whichever line it was read from, and the properties of the
  tailer whatever the parser does with a line.
\<close>

definition is_space :: "char \<Rightarrow> bool" where
  "is_space c = (c \<in> set [CHR 0x09, CHR 0x0A, CHR 0x0B, CHR 0x0C, CHR 0x0D,
                             CHR 0x1C, CHR 0x1D, CHR 0x1E, CHR 0x1F, CHR 0x20])"

definition is_digit :: "char \<Rightarrow> bool" where
  "is_digit c = (c \<in> set ''0123456789'')"

definition lower_char :: "char \<Rightarrow> char" where
  "lower_char c =
     (case map_of (zip ''ABCDEFGHIJKLMNOPQRSTUVWXYZ'' ''abcdefghijklmnopqrstuvwxyz'') c of
        Some d \<Rightarrow> d
      | None \<Rightarrow> c)"

text \<open>\<open>s.lower()\<close>\<close>

definition lower :: "string \<Rightarrow> string" where
  "lower s = map lower_char s"

text \<open>\<open>s.strip()\<close>\<close>

definition strip :: "string \<Rightarrow> string" where
  "strip s = rev (dropWhile is_space (rev (dropWhile is_space s)))"

fun starts_with :: "string \<Rightarrow> string \<Rightarrow> bool" where
  "starts_with [] s = True"
| "starts_with (k # ks) [] = False"
| "starts_with (k # ks) (c # cs) = (k = c \<and> starts_with ks cs)"

text \<open>\<open>k in s\<close> on strings: \<open>k\<close> occurs in \<open>s\<close> as a contiguous piece.\<close>

fun contains :: "string \<Rightarrow> string \<Rightarrow> bool" where
  "contains k [] = (k = [])"
| "contains k (c # cs) = (starts_with k (c # cs) \<or> contains k cs)"

section \<open>The regular expressions\<close>

text \<open>
  The patterns of the source use literals, the classes \<open>\d\<close>, \<open>\s\<close>, \<open>.\<close>,
  \<open>[0-9.]\<close>, \<open>[0-9]\<close>, the greedy quantifiers \<open>*\<close> and \<open>+\<close> on a single class,
  fixed repetitions and groups that are not nested.  A pattern is a list of items;
  \<open>Open\<close> and \<open>Close\<close> delimit a capturing group.
\<close>

datatype cclass = Lit char | Digit | Space | AnyCh | DigDot

datatype item = One cclass | Star cclass | Plus cclass | Open | Close

type_synonym regex = "item list"

fun cmatch :: "cclass \<Rightarrow> char \<Rightarrow> bool" where
  "cmatch (Lit k) c = (c = k)"
| "cmatch Digit c = is_digit c"
| "cmatch Space c = is_space c"
| "cmatch AnyCh c = (c \<noteq> CHR 0x0A)"
| "cmatch DigDot c = (is_digit c \<or> c = CHR ''.'')"

text \<open>A consumed character is appended to the group that is open, if one is.\<close>

fun capture :: "bool \<Rightarrow> char \<Rightarrow> string list \<Rightarrow> string list" where
  "capture True c (g # gs) = (g @ [c]) # gs"
| "capture ins c gs = gs"

text \<open>
  Backtracking match of a pattern at the start of the input: a greedy quantifier
  first takes one more character and gives it back only when the rest of the
  pattern fails.  The result is the list of captured groups, group 1 first.
\<close>

fun rmatch :: "regex \<Rightarrow> string \<Rightarrow> bool \<Rightarrow> string list \<Rightarrow> string list option" where
  "rmatch [] s ins caps = Some (rev caps)"
| "rmatch (Open # p) s ins caps = rmatch p s True ([] # caps)"
| "rmatch (Close # p) s ins caps = rmatch p s False caps"
| "rmatch (One k # p) [] ins caps = None"
| "rmatch (One k # p) (c # cs) ins caps =
     (if cmatch k c then rmatch p cs ins (capture ins c caps) else None)"
| "rmatch (Star k # p) [] ins caps = rmatch p [] ins caps"
| "rmatch (Star k # p) (c # cs) ins caps =
     (if cmatch k c
      then (case rmatch (Star k # p) cs ins (capture ins c caps) of
              Some r \<Rightarrow> Some r
            | None \<Rightarrow> rmatch p (c # cs) ins caps)
      else rmatch p (c # cs) ins caps)"
| "rmatch (Plus k # p) [] ins caps = None"
| "rmatch (Plus k # p) (c # cs) ins caps =
     (if cmatch k c then rmatch (Star k # p) cs ins (capture ins c caps) else None)"

text \<open>\<open>re.search\<close> of a pattern that starts with \<open>^\<close>: only the start of the line is tried.\<close>

definition re_match :: "regex \<Rightarrow> string \<Rightarrow> string list option" where
  "re_match p s = rmatch p s False []"

text \<open>\<open>re.search\<close>: the leftmost position at which the pattern matches.\<close>

fun re_search :: "regex \<Rightarrow> string \<Rightarrow> string list option" where
  "re_search p [] = rmatch p [] False []"
| "re_search p (c # cs) =
     (case rmatch p (c # cs) False [] of
        Some g \<Rightarrow> Some g
      | None \<Rightarrow> re_search p cs)"

definition lits :: "string \<Rightarrow> regex" where
  "lits s = map (\<lambda>c. One (Lit c)) s"

definition digits :: "nat \<Rightarrow> regex" where
  "digits n = replicate n (One Digit)"

text \<open>\<open>\[(\d{4}-\d{2}-\d{2} \d{2}:\d{2}:\d{2})\]\<close>, the head of the three metric patterns.\<close>

definition stamp :: regex where
  "stamp = lits ''['' @ [Open] @ digits 4 @ lits ''-'' @ digits 2 @ lits ''-'' @ digits 2
           @ lits '' '' @ digits 2 @ lits '':'' @ digits 2 @ lits '':'' @ digits 2
           @ [Close] @ lits '']''"

definition rate_re :: regex where
  "rate_re = stamp @ [Star AnyCh] @ lits ''Current download rate:'' @ [Star Space]
             @ [Open, Plus DigDot, Close] @ [Star Space] @ lits ''Mbps''"

definition inc_re :: regex where
  "inc_re = stamp @ [Star AnyCh] @ lits ''(rate was'' @ [Star Space, Plus DigDot]
            @ lits '','' @ [Star Space] @ lits ''now'' @ [Star Space]
            @ [Open, Plus DigDot, Close] @ lits '')''"

definition stats_re :: regex where
  "stats_re = stamp @ [Star AnyCh] @ lits ''stats:'' @ [Star Space] @ lits ''(Invalid,''
              @ [Star Space] @ lits ''0)'' @ [Star Space] @ lits '':'' @ [Star Space]
              @ [Open, Plus Digit, Close] @ [Star Space] @ lits ''Bytes,'' @ [Star Space]
              @ [Open, Plus Digit, Close] @ [Star Space] @ lits ''sec'' @ [Star Space]
              @ lits ''('' @ [Open, Plus DigDot, Close] @ [Star Space] @ lits ''Mbps).''"

definition appid_head :: regex where
  "appid_head = lits ''AppID'' @ [Plus Space, Open, Plus Digit, Close, Plus Space]"

definition upd_changed_re :: regex where
  "upd_changed_re = appid_head @ [Star AnyCh] @ lits ''update changed'' @ [Star Space]
                    @ lits '':'' @ [Star Space, Open, Star AnyCh, Close]"

definition upd_started_re :: regex where
  "upd_started_re = appid_head @ lits ''update started'' @ [Star Space] @ lits '':''"

definition upd_canceled_re :: regex where
  "upd_canceled_re = appid_head @ lits ''update canceled'' @ [Star Space] @ lits '':''"

definition finished_re :: regex where
  "finished_re = appid_head @ lits ''finished update''"

definition state_changed_re :: regex where
  "state_changed_re = appid_head @ lits ''state changed'' @ [Star Space] @ lits '':''
                      @ [Star Space, Open, Star AnyCh, Close]"

section \<open>The string literals of the source\<close>

text \<open>
  The status labels and messages of the source are Russian; each constant is the UTF-8
  encoding of the source literal and is named by its transliteration.
\<close>

definition Pauza :: string where \<comment> \<open>"paused"\<close>
  "Pauza = [CHR 0xD0, CHR 0x9F, CHR 0xD0, CHR 0xB0, CHR 0xD1, CHR 0x83, CHR 0xD0, CHR 0xB7,
            CHR 0xD0, CHR 0xB0]"

definition Skachivanie :: string where \<comment> \<open>"downloading"\<close>
  "Skachivanie = [CHR 0xD0, CHR 0xA1, CHR 0xD0, CHR 0xBA, CHR 0xD0, CHR 0xB0, CHR 0xD1, CHR 0x87,
                  CHR 0xD0, CHR 0xB8, CHR 0xD0, CHR 0xB2, CHR 0xD0, CHR 0xB0, CHR 0xD0, CHR 0xBD,
                  CHR 0xD0, CHR 0xB8, CHR 0xD0, CHR 0xB5]"

definition Stadiya :: string where \<comment> \<open>"stage (staging)"\<close>
  "Stadiya = [CHR 0xD0, CHR 0xA1, CHR 0xD1, CHR 0x82, CHR 0xD0, CHR 0xB0, CHR 0xD0, CHR 0xB4,
              CHR 0xD0, CHR 0xB8, CHR 0xD1, CHR 0x8F] @ '' (staging)''"

definition Ustanovka :: string where \<comment> \<open>"installation (commit)"\<close>
  "Ustanovka = [CHR 0xD0, CHR 0xA3, CHR 0xD1, CHR 0x81, CHR 0xD1, CHR 0x82, CHR 0xD0, CHR 0xB0,
                CHR 0xD0, CHR 0xBD, CHR 0xD0, CHR 0xBE, CHR 0xD0, CHR 0xB2, CHR 0xD0, CHR 0xBA,
                CHR 0xD0, CHR 0xB0] @ '' (commit)''"

definition Proverka :: string where \<comment> \<open>"verification"\<close>
  "Proverka = [CHR 0xD0, CHR 0x9F, CHR 0xD1, CHR 0x80, CHR 0xD0, CHR 0xBE, CHR 0xD0, CHR 0xB2,
               CHR 0xD0, CHR 0xB5, CHR 0xD1, CHR 0x80, CHR 0xD0, CHR 0xBA, CHR 0xD0, CHR 0xB0]"

definition Podgotovka :: string where \<comment> \<open>"preparation"\<close>
  "Podgotovka = [CHR 0xD0, CHR 0x9F, CHR 0xD0, CHR 0xBE, CHR 0xD0, CHR 0xB4, CHR 0xD0, CHR 0xB3,
                 CHR 0xD0, CHR 0xBE, CHR 0xD1, CHR 0x82, CHR 0xD0, CHR 0xBE, CHR 0xD0, CHR 0xB2,
                 CHR 0xD0, CHR 0xBA, CHR 0xD0, CHR 0xB0]"

definition Vydelenie :: string where \<comment> \<open>"allocating space"\<close>
  "Vydelenie = [CHR 0xD0, CHR 0x92, CHR 0xD1, CHR 0x8B, CHR 0xD0, CHR 0xB4, CHR 0xD0, CHR 0xB5,
                CHR 0xD0, CHR 0xBB, CHR 0xD0, CHR 0xB5, CHR 0xD0, CHR 0xBD, CHR 0xD0, CHR 0xB8,
                CHR 0xD0, CHR 0xB5, CHR 0x20, CHR 0xD0, CHR 0xBC, CHR 0xD0, CHR 0xB5, CHR 0xD1,
                CHR 0x81, CHR 0xD1, CHR 0x82, CHR 0xD0, CHR 0xB0]"

definition Net :: string where \<comment> \<open>"none": the idle label\<close>
  "Net = [CHR 0xD0, CHR 0x9D, CHR 0xD0, CHR 0xB5, CHR 0xD1, CHR 0x82]"

definition Gotovo :: string where \<comment> \<open>"done"\<close>
  "Gotovo = [CHR 0xD0, CHR 0x93, CHR 0xD0, CHR 0xBE, CHR 0xD1, CHR 0x82, CHR 0xD0, CHR 0xBE,
             CHR 0xD0, CHR 0xB2, CHR 0xD0, CHR 0xBE]"

definition Nichego :: string where \<comment> \<open>"nothing is being downloaded"\<close>
  "Nichego = [CHR 0xD0, CHR 0x9D, CHR 0xD0, CHR 0xB8, CHR 0xD1, CHR 0x87, CHR 0xD0, CHR 0xB5,
              CHR 0xD0, CHR 0xB3, CHR 0xD0, CHR 0xBE, CHR 0x20, CHR 0xD0, CHR 0xBD, CHR 0xD0,
              CHR 0xB5, CHR 0x20, CHR 0xD0, CHR 0xB7, CHR 0xD0, CHR 0xB0, CHR 0xD0, CHR 0xB3,
              CHR 0xD1, CHR 0x80, CHR 0xD1, CHR 0x83, CHR 0xD0, CHR 0xB6, CHR 0xD0, CHR 0xB0,
              CHR 0xD0, CHR 0xB5, CHR 0xD1, CHR 0x82, CHR 0xD1, CHR 0x81, CHR 0xD1, CHR 0x8F]"

definition Skorost :: string where \<comment> \<open>"speed"\<close>
  "Skorost = [CHR 0xD1, CHR 0x81, CHR 0xD0, CHR 0xBA, CHR 0xD0, CHR 0xBE, CHR 0xD1, CHR 0x80,
              CHR 0xD0, CHR 0xBE, CHR 0xD1, CHR 0x81, CHR 0xD1, CHR 0x82, CHR 0xD1, CHR 0x8C]"

section \<open>The tracker state\<close>

text \<open>
  Class \<open>State\<close>.  The two dictionaries are association lists in insertion order, as a
  Python \<open>dict\<close> iterates; \<open>AList.update\<close> overwrites a present key in place and appends
  a new one.  Clock readings and speeds are Python floats, modelled as reals.
\<close>

record State =
  active_app :: "string option"
  active_status :: string
  app_status :: "(string \<times> string) list"
  seen :: "(string \<times> real) list"
  speed :: "real option"
  speed_wall_ts :: real
  speed_log_ts :: string
  speed_src :: string

text \<open>\<open>State()\<close>\<close>

definition State0 :: State where
  "State0 = \<lparr>active_app = None, active_status = [], app_status = [], seen = [],
             speed = None, speed_wall_ts = 0, speed_log_ts = [], speed_src = []\<rparr>"

definition nice_status :: "string \<Rightarrow> string" where
  "nice_status raw =
     (let s = lower raw in
      if contains ''suspended'' s then Pauza
      else if contains ''downloading'' s then Skachivanie
      else if contains ''staging'' s then Stadiya
      else if contains ''committing'' s then Ustanovka
      else if contains ''verifying'' s then Proverka
      else if contains ''reconfiguring'' s then Podgotovka
      else if contains ''preallocating'' s then Vydelenie
      else Net)"

text \<open>Python truth of an optional string: \<open>None\<close> and the empty string are false.\<close>

fun truthy :: "string option \<Rightarrow> bool" where
  "truthy None = False"
| "truthy (Some s) = (s \<noteq> [])"

text \<open>\<open>d.get(k, default)\<close>\<close>

definition dict_get :: "('k \<times> 'v) list \<Rightarrow> 'k \<Rightarrow> 'v \<Rightarrow> 'v" where
  "dict_get d k dflt = (case map_of d k of Some v \<Rightarrow> v | None \<Rightarrow> dflt)"

text \<open>The body of the loop of \<open>pick_active\<close>, with \<open>best\<close> as the loop variable.\<close>

definition pick_step :: "State \<Rightarrow> (real \<times> string) option \<Rightarrow> string \<times> real
                          \<Rightarrow> (real \<times> string) option" where
  "pick_step st best e =
     (let appid = fst e; ts = snd e; ss = dict_get (app_status st) appid [] in
      if ss \<noteq> [] \<and> ss \<noteq> Net \<and> ss \<noteq> Gotovo
      then (case best of
              None \<Rightarrow> Some (ts, appid)
            | Some b \<Rightarrow> if ts > fst b then Some (ts, appid) else best)
      else best)"

definition pick_active :: "State \<Rightarrow> string option" where
  "pick_active st =
     (if truthy (active_app st) then active_app st
      else (case foldl (pick_step st) None (seen st) of
              Some b \<Rightarrow> Some (snd b)
            | None \<Rightarrow> None))"

text \<open>\<open>_set_speed\<close>; \<open>now\<close> is the reading of \<open>time.time()\<close>.\<close>

definition set_speed :: "real \<Rightarrow> State \<Rightarrow> real \<Rightarrow> string \<Rightarrow> string \<Rightarrow> State" where
  "set_speed now st mbps log_ts src =
     st\<lparr>speed := Some mbps, speed_wall_ts := now, speed_log_ts := log_ts, speed_src := src\<rparr>"

section \<open>Reading a number\<close>

datatype error = ValueError | OSError

definition digit_val :: "char \<Rightarrow> nat" where
  "digit_val c = (case map_of (zip ''0123456789'' [0, 1, 2, 3, 4, 5, 6, 7, 8, 9]) c of
                    Some d \<Rightarrow> d
                  | None \<Rightarrow> 0)"

definition nat_of_digits :: "string \<Rightarrow> nat" where
  "nat_of_digits s = foldl (\<lambda>a c. 10 * a + digit_val c) 0 s"

text \<open>
  \<open>float(s)\<close> for a text \<open>s\<close> made of digits and dots, which is all the patterns
  capture: digits with at most one dot and at least one digit give the decimal
  value, anything else raises \<open>ValueError\<close>.  The value is the decimal read exactly;
  its rounding to a binary float is not modelled.
\<close>

definition float_of :: "string \<Rightarrow> error + real" where
  "float_of s =
     (let ip = takeWhile is_digit s; r = dropWhile is_digit s in
      if r = [] then (if ip = [] then Inl ValueError else Inr (real (nat_of_digits ip)))
      else if hd r = CHR ''.'' \<and> list_all is_digit (tl r) \<and> (ip \<noteq> [] \<or> tl r \<noteq> [])
      then Inr (real (nat_of_digits (ip @ tl r)) / 10 ^ length (tl r))
      else Inl ValueError)"

section \<open>The line parser\<close>

text \<open>\<open>m.group(i)\<close> for a match with groups \<open>m\<close>; every pattern has the groups asked for.\<close>

definition grp :: "string list \<Rightarrow> nat \<Rightarrow> string" where
  "grp m i = (if 0 < i \<and> i \<le> length m then m ! (i - 1) else [])"

definition active_words :: "string list" where
  "active_words = [''downloading'', ''staging'', ''committing'', ''verifying'',
                   ''preallocating'', ''reconfiguring'']"

text \<open>
  \<open>parse_line\<close>, with \<open>now\<close> the reading of \<open>time.time()\<close> during the call.  The
  patterns are tried in the order of the source and the first that matches decides.
  The only failure is \<open>float\<close> raising \<open>ValueError\<close>.
\<close>

definition parse_line :: "real \<Rightarrow> string \<Rightarrow> State \<Rightarrow> error + State" where
  "parse_line now line st =
    (case re_search upd_changed_re line of
       Some m \<Rightarrow>
         (let appid = grp m 1; raw = grp m 2; ss = nice_status raw;
              st1 = st\<lparr>app_status := AList.update appid ss (app_status st),
                       seen := AList.update appid now (seen st)\<rparr>;
              st2 = (if list_ex (\<lambda>k. contains k (lower raw)) active_words
                     then st1\<lparr>active_app := Some appid, active_status := ss\<rparr>
                     else st1);
              st3 = (if lower (strip raw) = ''none''
                     then st2\<lparr>app_status := AList.update appid Net (app_status st2)\<rparr>
                     else st2)
          in Inr st3)
     | None \<Rightarrow>
    (case re_search upd_started_re line of
       Some m \<Rightarrow>
         (let appid = grp m 1 in
          Inr (st\<lparr>active_app := Some appid, active_status := Skachivanie,
                   app_status := AList.update appid Skachivanie (app_status st),
                   seen := AList.update appid now (seen st)\<rparr>))
     | None \<Rightarrow>
    (case re_search upd_canceled_re line of
       Some m \<Rightarrow>
         (let appid = grp m 1;
              st1 = st\<lparr>app_status := AList.update appid Pauza (app_status st),
                       seen := AList.update appid now (seen st)\<rparr>
          in Inr (if active_app st1 = Some appid then st1\<lparr>active_status := Pauza\<rparr> else st1))
     | None \<Rightarrow>
    (case re_search finished_re line of
       Some m \<Rightarrow>
         (let appid = grp m 1;
              st1 = st\<lparr>app_status := AList.update appid Gotovo (app_status st),
                       seen := AList.update appid now (seen st)\<rparr>
          in Inr (if active_app st1 = Some appid
                  then st1\<lparr>active_app := None, active_status := [],
                           speed := None, speed_wall_ts := 0\<rparr>
                  else st1))
     | None \<Rightarrow>
    (case re_search state_changed_re line of
       Some m \<Rightarrow>
         (let appid = grp m 1; raw = grp m 2 in
          if contains ''suspended'' (lower raw)
          then (let st1 = st\<lparr>app_status := AList.update appid Pauza (app_status st),
                                seen := AList.update appid now (seen st)\<rparr>
                in Inr (if active_app st1 = Some appid
                        then st1\<lparr>active_status := Pauza\<rparr> else st1))
          else Inr st)
     | None \<Rightarrow>
    (case re_match rate_re line of
       Some m \<Rightarrow>
         (case float_of (grp m 2) of
            Inl e \<Rightarrow> Inl e
          | Inr v \<Rightarrow> Inr (set_speed now st v (grp m 1) ''rate''))
     | None \<Rightarrow>
    (case re_match inc_re line of
       Some m \<Rightarrow>
         (case float_of (grp m 2) of
            Inl e \<Rightarrow> Inl e
          | Inr v \<Rightarrow> Inr (set_speed now st v (grp m 1) ''inc''))
     | None \<Rightarrow>
    (case re_match stats_re line of
       Some m \<Rightarrow>
         (case float_of (grp m 4) of
            Inl e \<Rightarrow> Inl e
          | Inr v \<Rightarrow> Inr (set_speed now st v (grp m 1) ''stats''))
     | None \<Rightarrow> Inr st))))))))"

text \<open>
  The pipeline over a sequence of lines, each with the clock reading at which it is
  processed; an exception ends it.
\<close>

fun run_lines :: "(real \<times> string) list \<Rightarrow> State \<Rightarrow> error + State" where
  "run_lines [] st = Inr st"
| "run_lines (x # xs) st =
     (case parse_line (fst x) (snd x) st of
        Inl e \<Rightarrow> Inl e
      | Inr st' \<Rightarrow> run_lines xs st')"

section \<open>The classifier and the updater\<close>

text \<open>
  The specification describes \<open>parse_line\<close> as a classifier followed by an updater.
  The two definitions below cut \<open>parse_line\<close> at that seam: \<open>classify\<close> is its cascade
  of pattern tests, \<open>apply_event\<close> the body of each branch.  Lemma
  \<open>parse_line_classify\<close> shows that their composition is \<open>parse_line\<close>.
\<close>

datatype event =
    SubjectUpdateChanged string string
  | SubjectUpdateStarted string
  | SubjectUpdateCanceled string
  | SubjectFinished string
  | SubjectStateChanged string string
  | MetricRate real string
  | MetricDelta real string
  | MetricStats real string

definition classify :: "string \<Rightarrow> error + event option" where
  "classify line =
    (case re_search upd_changed_re line of
       Some m \<Rightarrow> Inr (Some (SubjectUpdateChanged (grp m 1) (grp m 2)))
     | None \<Rightarrow>
    (case re_search upd_started_re line of
       Some m \<Rightarrow> Inr (Some (SubjectUpdateStarted (grp m 1)))
     | None \<Rightarrow>
    (case re_search upd_canceled_re line of
       Some m \<Rightarrow> Inr (Some (SubjectUpdateCanceled (grp m 1)))
     | None \<Rightarrow>
    (case re_search finished_re line of
       Some m \<Rightarrow> Inr (Some (SubjectFinished (grp m 1)))
     | None \<Rightarrow>
    (case re_search state_changed_re line of
       Some m \<Rightarrow> Inr (Some (SubjectStateChanged (grp m 1) (grp m 2)))
     | None \<Rightarrow>
    (case re_match rate_re line of
       Some m \<Rightarrow>
         (case float_of (grp m 2) of
            Inl e \<Rightarrow> Inl e
          | Inr v \<Rightarrow> Inr (Some (MetricRate v (grp m 1))))
     | None \<Rightarrow>
    (case re_match inc_re line of
       Some m \<Rightarrow>
         (case float_of (grp m 2) of
            Inl e \<Rightarrow> Inl e
          | Inr v \<Rightarrow> Inr (Some (MetricDelta v (grp m 1))))
     | None \<Rightarrow>
    (case re_match stats_re line of
       Some m \<Rightarrow>
         (case float_of (grp m 4) of
            Inl e \<Rightarrow> Inl e
          | Inr v \<Rightarrow> Inr (Some (MetricStats v (grp m 1))))
     | None \<Rightarrow> Inr None))))))))"

text \<open>Writing the status and the time of the last event of a subject.\<close>

definition touch :: "real \<Rightarrow> string \<Rightarrow> string \<Rightarrow> State \<Rightarrow> State" where
  "touch now appid ss st =
     st\<lparr>app_status := AList.update appid ss (app_status st),
        seen := AList.update appid now (seen st)\<rparr>"

fun apply_event :: "real \<Rightarrow> event \<Rightarrow> State \<Rightarrow> State" where
  "apply_event now (SubjectUpdateChanged appid raw) st =
     (let ss = nice_status raw;
          st1 = touch now appid ss st;
          st2 = (if list_ex (\<lambda>k. contains k (lower raw)) active_words
                 then st1\<lparr>active_app := Some appid, active_status := ss\<rparr>
                 else st1)
      in if lower (strip raw) = ''none''
         then st2\<lparr>app_status := AList.update appid Net (app_status st2)\<rparr>
         else st2)"
| "apply_event now (SubjectUpdateStarted appid) st =
     (touch now appid Skachivanie st)\<lparr>active_app := Some appid, active_status := Skachivanie\<rparr>"
| "apply_event now (SubjectUpdateCanceled appid) st =
     (let st1 = touch now appid Pauza st
      in if active_app st1 = Some appid then st1\<lparr>active_status := Pauza\<rparr> else st1)"
| "apply_event now (SubjectFinished appid) st =
     (let st1 = touch now appid Gotovo st
      in if active_app st1 = Some appid
         then st1\<lparr>active_app := None, active_status := [], speed := None, speed_wall_ts := 0\<rparr>
         else st1)"
| "apply_event now (SubjectStateChanged appid raw) st =
     (if contains ''suspended'' (lower raw)
      then (let st1 = touch now appid Pauza st
            in if active_app st1 = Some appid then st1\<lparr>active_status := Pauza\<rparr> else st1)
      else st)"
| "apply_event now (MetricRate v ts) st = set_speed now st v ts ''rate''"
| "apply_event now (MetricDelta v ts) st = set_speed now st v ts ''inc''"
| "apply_event now (MetricStats v ts) st = set_speed now st v ts ''stats''"

text \<open>The value, the log time and the source tag of a metric event.\<close>

fun metric_of :: "event \<Rightarrow> (real \<times> string \<times> string) option" where
  "metric_of (MetricRate v ts) = Some (v, ts, ''rate'')"
| "metric_of (MetricDelta v ts) = Some (v, ts, ''inc'')"
| "metric_of (MetricStats v ts) = Some (v, ts, ''stats'')"
| "metric_of ev = None"

text \<open>An event that assigns the active subject whatever the state is.\<close>

fun activates :: "event \<Rightarrow> bool" where
  "activates (SubjectUpdateChanged appid raw) =
     list_ex (\<lambda>k. contains k (lower raw)) active_words"
| "activates (SubjectUpdateStarted appid) = True"
| "activates ev = False"

section \<open>The status reporter\<close>

text \<open>Line 294: the status shown for the selected subject.\<close>

definition effective_status :: "State \<Rightarrow> string \<Rightarrow> string" where
  "effective_status st appid =
     (let v = dict_get (app_status st) appid (active_status st) in
      if v \<noteq> [] then v else ''?'')"

text \<open>
  One report of \<open>watch_log\<close> (lines 282 to 303); the result is the line printed.
  \<open>manifest_name\<close> is the name lookup with the libraries fixed, \<open>fmt3\<close> is Python's
  formatting of a float with \<open>.3f\<close>, \<open>out_time\<close> is the formatted local time and
  \<open>now\<close> the reading of \<open>time.time()\<close> in the freshness test.
\<close>

definition report_tick :: "(string \<Rightarrow> string option) \<Rightarrow> (real \<Rightarrow> string) \<Rightarrow> string \<Rightarrow> real
                           \<Rightarrow> State \<Rightarrow> string" where
  "report_tick manifest_name fmt3 out_time now st =
     (let appid = pick_active st;
          speed_ok = (speed st \<noteq> None \<and> now - speed_wall_ts st \<le> 300)
      in if \<not> truthy appid then ''['' @ out_time @ ''] '' @ Nichego
         else (let name = manifest_name (the appid)
               in if \<not> truthy name then ''['' @ out_time @ ''] '' @ Nichego
                  else (let ss = effective_status st (the appid)
                        in if ss = Pauza
                           then ''['' @ out_time @ ''] '' @ the name @ '' | '' @ ss
                           else if \<not> speed_ok
                           then ''['' @ out_time @ ''] '' @ the name @ '' | '' @ ss @ '' | ''
                                @ Skorost @ '': ?''
                           else ''['' @ out_time @ ''] '' @ the name @ '' | '' @ ss @ '' | ''
                                @ Skorost @ '': '' @ fmt3 (the (speed st)) @ '' Mbps | '')))"

section \<open>The log tailer\<close>

text \<open>
  The log file is its content, a string of bytes.  The file is opened in text mode with
  universal newlines, so a line ends after a line feed, after a carriage return, or
  after the two together; the end of the file ends the last line.  Lines are kept as
  they are in the file: every line is stripped before it is parsed, which removes the
  line end whatever its form.
\<close>

text \<open>\<open>f.readline()\<close> on the rest of the file; the empty string at the end of the file.\<close>

fun first_line :: "string \<Rightarrow> string" where
  "first_line [] = []"
| "first_line (c # cs) =
     (if c = CHR 0x0A then [c]
      else if c = CHR 0x0D
      then (case cs of
              [] \<Rightarrow> [c]
            | d # ds \<Rightarrow> if d = CHR 0x0A then [c, d] else [c])
      else c # first_line cs)"

text \<open>The lines that \<open>for ln in f\<close> yields on the rest of the file.\<close>

fun split_acc :: "string \<Rightarrow> string \<Rightarrow> string list" where
  "split_acc acc [] = (if acc = [] then [] else [rev acc])"
| "split_acc acc (c # cs) =
     (if c = CHR 0x0A then rev (c # acc) # split_acc [] cs
      else if c = CHR 0x0D
      then (case cs of
              [] \<Rightarrow> [rev (c # acc)]
            | d # ds \<Rightarrow> if d = CHR 0x0A then rev (d # c # acc) # split_acc [] ds
                       else rev (c # acc) # split_acc [] cs)
      else split_acc (c # acc) cs)"

definition file_lines :: "string \<Rightarrow> string list" where
  "file_lines s = split_acc [] s"

text \<open>
  What the tailer does to the file is recorded: each positioning of the handle and the
  offset of each read.
\<close>

datatype io = Seek nat | Read nat

text \<open>
  The variables of \<open>watch_log\<close> that the tailer owns: the cursor \<open>pos\<close>, the offset
  \<open>fh\<close> of the open handle \<open>f\<close>, the tracker state \<open>st\<close>, and the record of the file
  operations so far.
\<close>

record Tail =
  pos :: nat
  fh :: nat
  tstate :: State
  reads :: "io list"

text \<open>
  The tailer hands every line it reads to the parser by the call
  \<open>parse_line(ln.strip(), st)\<close>.  In the tailer below this call is the function \<open>feed\<close>:
  \<open>feed off l st\<close> is the outcome of the call for the line \<open>l\<close> read at offset \<open>off\<close>,
  the new tracker state or the exception raised; what the call does to the line
  (decoding, stripping, matching) is inside \<open>feed\<close>.  \<open>feed_line\<close> is the call itself, with
  \<open>clock off\<close> the reading of \<open>time.time()\<close> while the line at offset \<open>off\<close> is parsed.
\<close>

definition feed_line :: "(nat \<Rightarrow> real) \<Rightarrow> nat \<Rightarrow> string \<Rightarrow> State \<Rightarrow> error + State" where
  "feed_line clock off l st = parse_line (clock off) (strip l) st"

text \<open>
  The loop \<open>for ln in f: parse_line(ln.strip(), st)\<close> from offset \<open>off\<close>, on the lines
  left in the file.  The loop ends with the read that finds the end of the file.
\<close>

fun replay :: "(nat \<Rightarrow> string \<Rightarrow> State \<Rightarrow> error + State) \<Rightarrow> string list \<Rightarrow> nat \<Rightarrow> State
               \<Rightarrow> io list \<Rightarrow> error + (nat \<times> State \<times> io list)" where
  "replay feed [] off s tr = Inr (off, s, tr @ [Read off])"
| "replay feed (l # ls) off s tr =
     (case feed off l s of
        Inl e \<Rightarrow> Inl e
      | Inr s' \<Rightarrow> replay feed ls (off + length l) s' (tr @ [Read off]))"

text \<open>
  \<open>reopen_tail\<close> on a file with the given content (one snapshot serves \<open>open\<close> and
  \<open>getsize\<close>).
\<close>

definition reopen_tail :: "(nat \<Rightarrow> string \<Rightarrow> State \<Rightarrow> error + State) \<Rightarrow> string \<Rightarrow> Tail
                           \<Rightarrow> error + Tail" where
  "reopen_tail feed content t =
     (let size = length content;
          start = nat (max 0 (int size - 200000));
          tr1 = reads t @ [Seek start];
          off1 = (if start > 0 then start + length (first_line (drop start content)) else start);
          tr2 = (if start > 0 then tr1 @ [Read start] else tr1)
      in case replay feed (file_lines (drop off1 content)) off1 (tstate t) tr2 of
           Inl e \<Rightarrow> Inl e
         | Inr r \<Rightarrow> Inr \<lparr>pos = fst r, fh = fst r, tstate = fst (snd r), reads = snd (snd r)\<rparr>)"

text \<open>
  The tailing part of one turn of the loop of \<open>watch_log\<close> (lines 257 to 275).  The file
  is \<open>None\<close> when its size cannot be read, which the loop answers by waiting for the
  next turn.
\<close>

definition tail_iter :: "(nat \<Rightarrow> string \<Rightarrow> State \<Rightarrow> error + State) \<Rightarrow> string option \<Rightarrow> Tail
                         \<Rightarrow> error + Tail" where
  "tail_iter feed file t =
     (case file of
        None \<Rightarrow> Inr t
      | Some content \<Rightarrow>
          (case (if length content < pos t then reopen_tail feed content t else Inr t) of
             Inl e \<Rightarrow> Inl e
           | Inr t1 \<Rightarrow>
               (let ln = first_line (drop (fh t1) content);
                    tr = reads t1 @ [Read (fh t1)]
                in if ln = [] then Inr (t1\<lparr>reads := tr\<rparr>)
                   else (case feed (fh t1) ln (tstate t1) of
                           Inl e \<Rightarrow> Inl e
                         | Inr s' \<Rightarrow> Inr (t1\<lparr>pos := fh t1 + length ln, fh := fh t1 + length ln,
                                             tstate := s', reads := tr\<rparr>)))))"

section \<open>Notions used to state the properties\<close>

text \<open>A sequence of events, each applied at its clock reading.\<close>

fun apply_events :: "(real \<times> event) list \<Rightarrow> State \<Rightarrow> State" where
  "apply_events [] st = st"
| "apply_events (x # xs) st = apply_events xs (apply_event (fst x) (snd x) st)"

text \<open>
  The relation between the cached status of the active subject and its entry in the
  status dictionary that every reachable state satisfies.
\<close>

definition lockstep :: "State \<Rightarrow> bool" where
  "lockstep st = (case active_app st of
       None \<Rightarrow> True
     | Some a \<Rightarrow> map_of (app_status st) a = Some (active_status st)
               \<or> map_of (app_status st) a = Some Pauza
               \<or> map_of (app_status st) a = Some Net)"

text \<open>
  What a line of a text file is, said without the reading functions: a piece \<open>l\<close> of
  the file followed by \<open>rest\<close> is a line when it consists of characters that are no
  line end, followed by a line feed, by a carriage return and a line feed, by a
  carriage return that no line feed follows, or, for a piece that is not empty, by
  the end of the file.
\<close>

definition eol :: "char \<Rightarrow> bool" where
  "eol c = (c = CHR 0x0A \<or> c = CHR 0x0D)"

definition line_ok :: "string \<Rightarrow> string \<Rightarrow> bool" where
  "line_ok l rest =
     (let body = takeWhile (\<lambda>c. \<not> eol c) l; term = dropWhile (\<lambda>c. \<not> eol c) l in
      term = [CHR 0x0A]
      \<or> term = [CHR 0x0D, CHR 0x0A]
      \<or> (term = [CHR 0x0D] \<and> (case rest of [] \<Rightarrow> True | d # ds \<Rightarrow> d \<noteq> CHR 0x0A))
      \<or> (term = [] \<and> body \<noteq> [] \<and> rest = []))"

text \<open>The pieces \<open>ls\<close> are the lines of the text \<open>s\<close>, in order and with nothing left over.\<close>

fun lines_ok :: "string list \<Rightarrow> string \<Rightarrow> bool" where
  "lines_ok [] s = (s = [])"
| "lines_ok (l # ls) s =
     (take (length l) s = l \<and> line_ok l (drop (length l) s) \<and> lines_ok ls (drop (length l) s))"

text \<open>Feeding lines in order, the first at offset \<open>off\<close>, until one raises.\<close>

fun feed_all :: "(nat \<Rightarrow> string \<Rightarrow> State \<Rightarrow> error + State) \<Rightarrow> nat \<Rightarrow> string list \<Rightarrow> State
                 \<Rightarrow> error + State" where
  "feed_all feed off [] s = Inr s"
| "feed_all feed off (l # ls) s =
     (case feed off l s of
        Inl e \<Rightarrow> Inl e
      | Inr s' \<Rightarrow> feed_all feed (off + length l) ls s')"

text \<open>The offsets at which the lines of a replay from offset \<open>off\<close> start.\<close>

fun line_offsets :: "nat \<Rightarrow> string list \<Rightarrow> nat list" where
  "line_offsets off [] = []"
| "line_offsets off (l # ls) = off # line_offsets (off + length l) ls"

text \<open>Where a reopening positions the handle: \<open>max(0, size - 200000)\<close>.\<close>

definition window_start :: "string \<Rightarrow> nat" where
  "window_start content = nat (max 0 (int (length content) - 200000))"

text \<open>The active subject with its cached status.\<close>

definition act :: "State \<Rightarrow> string option \<times> string" where
  "act st = (active_app st, active_status st)"

text \<open>The value of the metric sample with the time of its receipt.\<close>

definition smp :: "State \<Rightarrow> real option \<times> real" where
  "smp st = (speed st, speed_wall_ts st)"

text \<open>A line that the classifier turns into an event that assigns the active subject.\<close>

definition activating_line :: "string \<Rightarrow> bool" where
  "activating_line line = (case classify line of
       Inr (Some ev) \<Rightarrow> activates ev
     | _ \<Rightarrow> False)"

section \<open>The parser is the classifier followed by the updater\<close>

lemma parse_line_classify:
  "parse_line now line st =
     (case classify line of
        Inl e \<Rightarrow> Inl e
      | Inr None \<Rightarrow> Inr st
      | Inr (Some ev) \<Rightarrow> Inr (apply_event now ev st))"
  by (simp add: parse_line_def classify_def touch_def Let_def
           split: option.splits sum.splits)

section \<open>Facts about the status text\<close>

lemma starts_with_set: "starts_with k s \<Longrightarrow> set k \<subseteq> set s"
  by (induction k s rule: starts_with.induct) auto

lemma contains_set: "contains k s \<Longrightarrow> set k \<subseteq> set s"
  by (induction s) (auto dest!: starts_with_set)

lemma in_dropWhile: "x \<in> set xs \<Longrightarrow> \<not> P x \<Longrightarrow> x \<in> set (dropWhile P xs)"
  by (induction xs) auto

lemma in_strip: "x \<in> set s \<Longrightarrow> \<not> is_space x \<Longrightarrow> x \<in> set (strip s)"
  by (simp add: strip_def in_dropWhile)

lemma lower_char_changes: "lower_char c \<noteq> c \<Longrightarrow> c \<in> set ''ABCDEFGHIJKLMNOPQRSTUVWXYZ''"
  unfolding lower_char_def
  by (auto split: option.splits if_splits)

lemma space_not_upper: "is_space c \<Longrightarrow> c \<notin> set ''ABCDEFGHIJKLMNOPQRSTUVWXYZ''"
  unfolding is_space_def by auto

lemma lower_char_space: "is_space c \<Longrightarrow> lower_char c = c"
  using lower_char_changes space_not_upper by blast

lemma lower_none_letters:
  assumes "lower (strip raw) = ''none''" and "c \<in> set (lower raw)"
  shows "is_space c \<or> c \<in> set ''none''"
proof (cases "is_space c")
  case True then show ?thesis by simp
next
  case False
  from assms(2) obtain d where d: "d \<in> set raw" "c = lower_char d"
    by (auto simp: lower_def)
  have "\<not> is_space d" using False d(2) lower_char_space by force
  then have "d \<in> set (strip raw)" using d(1) by (rule in_strip[rotated])
  then have "c \<in> set (lower (strip raw))" using d(2) by (auto simp: lower_def)
  then show ?thesis using assms(1) by simp
qed

lemma active_word_not_none:
  assumes "list_ex (\<lambda>k. contains k (lower raw)) active_words"
  shows "lower (strip raw) \<noteq> ''none''"
proof
  assume n: "lower (strip raw) = ''none''"
  from assms obtain k where k: "k \<in> set active_words" "contains k (lower raw)"
    by (auto simp: list_ex_iff)
  have "hd k \<in> set k" using k(1) by (auto simp: active_words_def)
  then have "hd k \<in> set (lower raw)" using contains_set[OF k(2)] by auto
  then have "is_space (hd k) \<or> hd k \<in> set ''none''" by (rule lower_none_letters[OF n])
  then show False using k(1) by (auto simp: active_words_def is_space_def)
qed

lemma no_active_word_status:
  assumes "\<not> list_ex (\<lambda>k. contains k (lower raw)) active_words"
  shows "nice_status raw = Pauza \<or> nice_status raw = Net"
  using assms by (simp add: active_words_def nice_status_def Let_def)

lemma run_lines_append:
  "run_lines (xs @ ys) st = (case run_lines xs st of Inl e \<Rightarrow> Inl e | Inr st' \<Rightarrow> run_lines ys st')"
  by (induction xs arbitrary: st) (auto split: sum.splits)

section \<open>The cached status and the status dictionary\<close>

lemma apply_event_lockstep: "lockstep st \<Longrightarrow> lockstep (apply_event now ev st)"
proof (cases ev)
  case (SubjectUpdateChanged a raw)
  show "lockstep st \<Longrightarrow> ?thesis"
  proof (cases "list_ex (\<lambda>k. contains k (lower raw)) active_words")
    case True
    then show "lockstep st \<Longrightarrow> ?thesis" using active_word_not_none[OF True] SubjectUpdateChanged
      by (simp add: lockstep_def touch_def Let_def update_conv')
  next
    case False
    then show "lockstep st \<Longrightarrow> ?thesis" using no_active_word_status[OF False] SubjectUpdateChanged
      by (auto simp add: lockstep_def touch_def Let_def update_conv' split: option.splits)
  qed
qed (auto simp: lockstep_def touch_def Let_def update_conv' set_speed_def split: option.splits)

lemma parse_line_lockstep:
  "parse_line now line st = Inr st' \<Longrightarrow> lockstep st \<Longrightarrow> lockstep st'"
  by (auto simp: parse_line_classify apply_event_lockstep split: sum.splits option.splits)

lemma run_lines_lockstep:
  "run_lines xs st = Inr st' \<Longrightarrow> lockstep st \<Longrightarrow> lockstep st'"
proof (induction xs arbitrary: st)
  case Nil then show ?case by simp
next
  case (Cons x xs)
  then show ?case by (auto split: sum.splits dest: parse_line_lockstep)
qed

text \<open>
  Claim C2, amended.  In every tracker state reached from the empty state, the entry of
  the active subject in the status dictionary is the cached status of the active
  subject, or the paused label, or the idle label.  The entry need not be the cached
  status: an "update changed" line whose text names no active phase rewrites the entry
  and leaves the cached status as it was.
\<close>

theorem active_status_entry:
  assumes "run_lines xs State0 = Inr st" and "active_app st = Some a"
  shows "map_of (app_status st) a = Some (active_status st)
       \<or> map_of (app_status st) a = Some Pauza
       \<or> map_of (app_status st) a = Some Net"
proof -
  have "lockstep State0" by (simp add: lockstep_def State0_def)
  with assms(1) have "lockstep st" by (rule run_lines_lockstep)
  with assms(2) show ?thesis by (simp add: lockstep_def)
qed

theorem active_status_entry_witness:
  "run_lines [(1, ''[2024-01-01 10:00:00] AppID 10 update started:''),
              (2, ''[2024-01-01 10:05:00] AppID 10 update changed : Suspended'')] State0 =
     Inr \<lparr>active_app = Some ''10'', active_status = Skachivanie,
          app_status = [(''10'', Pauza)], seen = [(''10'', 2)],
          speed = None, speed_wall_ts = 0, speed_log_ts = [], speed_src = []\<rparr>
   \<and> (Some Pauza = Some Skachivanie \<or> Some Pauza = Some Pauza \<or> Some Pauza = Some Net)"
proof -
  let ?S = "\<lparr>active_app = Some ''10'', active_status = Skachivanie,
          app_status = [(''10'', Pauza)], seen = [(''10'', 2)],
          speed = None, speed_wall_ts = 0, speed_log_ts = [], speed_src = []\<rparr>"
  have r: "run_lines [(1, ''[2024-01-01 10:00:00] AppID 10 update started:''),
              (2, ''[2024-01-01 10:05:00] AppID 10 update changed : Suspended'')] State0 = Inr ?S"
    by code_simp
  have a: "active_app ?S = Some ''10''" by simp
  from active_status_entry[OF r a] r show ?thesis by simp
qed

text \<open>
  Claim C2 as stated fails: after "update started" and then "update changed : None" for
  subject 10, subject 10 is active with the cached status "downloading" while its entry
  in the status dictionary is the idle label.
\<close>

theorem lockstep_counterexample:
  "run_lines [(1, ''[2024-01-01 10:00:00] AppID 10 update started:''),
              (2, ''[2024-01-01 10:05:00] AppID 10 update changed : None'')] State0 =
     Inr \<lparr>active_app = Some ''10'', active_status = Skachivanie,
          app_status = [(''10'', Net)], seen = [(''10'', 2)],
          speed = None, speed_wall_ts = 0, speed_log_ts = [], speed_src = []\<rparr>
   \<and> Net \<noteq> Skachivanie"
  by code_simp

section \<open>The two dictionaries have the same keys\<close>

lemma keys_update:
  "map fst (AList.update k v al) = (if k \<in> set (map fst al) then map fst al else map fst al @ [k])"
  by (induction al) auto

lemma apply_event_keys:
  "map fst (app_status st) = map fst (seen st) \<Longrightarrow>
   map fst (app_status (apply_event now ev st)) = map fst (seen (apply_event now ev st))"
  by (cases ev) (auto simp: Let_def set_speed_def keys_update touch_def dom_update)

lemma parse_line_keys:
  "parse_line now line st = Inr st' \<Longrightarrow> map fst (app_status st) = map fst (seen st) \<Longrightarrow>
   map fst (app_status st') = map fst (seen st')"
  by (auto simp: parse_line_classify apply_event_keys split: sum.splits option.splits)

lemma run_lines_keys:
  "run_lines xs st = Inr st' \<Longrightarrow> map fst (app_status st) = map fst (seen st) \<Longrightarrow>
   map fst (app_status st') = map fst (seen st')"
proof (induction xs arbitrary: st)
  case Nil then show ?case by simp
next
  case (Cons x xs)
  then show ?case by (auto split: sum.splits dest: parse_line_keys)
qed

text \<open>
  Claim C10.  In every tracker state reached from the empty state by parsing a sequence
  of lines, a subject with an entry in the status dictionary has an entry in the
  last-seen dictionary, so the loop of \<open>pick_active\<close> over the last-seen entries visits
  it.  Every branch of \<open>parse_line\<close> that writes a status writes the time of the same
  subject too; the two dictionaries even list the same keys in the same order.
\<close>

theorem status_keys_seen:
  assumes "run_lines xs State0 = Inr st" and "map_of (app_status st) k = Some v"
  shows "\<exists>ts. (k, ts) \<in> set (seen st)"
proof -
  have "map fst (app_status st) = map fst (seen st)"
    using assms(1) by (rule run_lines_keys) (simp add: State0_def)
  moreover have "k \<in> set (map fst (app_status st))"
    using assms(2) by (metis map_of_eq_None_iff option.distinct(1) set_map)
  ultimately have "k \<in> fst ` set (seen st)" by simp
  then show ?thesis by auto
qed

theorem status_keys_seen_witness:
  "run_lines [(1, ''[2024-01-01 10:00:00] AppID 10 update started:'')] State0 =
     Inr \<lparr>active_app = Some ''10'', active_status = Skachivanie,
          app_status = [(''10'', Skachivanie)], seen = [(''10'', 1)],
          speed = None, speed_wall_ts = 0, speed_log_ts = [], speed_src = []\<rparr>
   \<and> (\<exists>ts. (''10'', ts) \<in> set [(''10'', 1::real)])"
proof -
  let ?S = "\<lparr>active_app = Some ''10'', active_status = Skachivanie,
          app_status = [(''10'', Skachivanie)], seen = [(''10'', 1)],
          speed = None, speed_wall_ts = 0, speed_log_ts = [], speed_src = []\<rparr>"
  have r: "run_lines [(1, ''[2024-01-01 10:00:00] AppID 10 update started:'')] State0 = Inr ?S"
    by code_simp
  have m: "map_of (app_status ?S) ''10'' = Some Skachivanie" by simp
  from status_keys_seen[OF r m] r show ?thesis by simp
qed

section \<open>The end of an update\<close>

text \<open>
  Claim C4.  Applying the event that the update of subject \<open>S\<close> has finished (the
  branch of \<open>parse_line\<close> at lines 183 to 193) to any tracker state sets the status of
  \<open>S\<close> to the done label and its last-seen time to the clock reading, and leaves the
  entries of every other subject as they were.  If \<open>S\<close> was the active subject, there
  is no active subject afterwards, its cached status is empty and the metric sample
  is absent; otherwise the active subject, its cached status and the metric sample
  are unchanged.
\<close>

theorem finished_event:
  assumes "st' = apply_event now (SubjectFinished S) st"
  shows "map_of (app_status st') S = Some Gotovo
       \<and> map_of (seen st') S = Some now
       \<and> (\<forall>k. k \<noteq> S \<longrightarrow> map_of (app_status st') k = map_of (app_status st) k
                       \<and> map_of (seen st') k = map_of (seen st) k)
       \<and> (if active_app st = Some S
          then active_app st' = None \<and> active_status st' = []
             \<and> speed st' = None \<and> speed_wall_ts st' = 0
          else active_app st' = active_app st \<and> active_status st' = active_status st
             \<and> speed st' = speed st \<and> speed_wall_ts st' = speed_wall_ts st
             \<and> speed_log_ts st' = speed_log_ts st \<and> speed_src st' = speed_src st)"
  using assms by (simp add: touch_def Let_def update_conv')

theorem finished_event_witness:
  "apply_event 5 (SubjectFinished ''10'')
     \<lparr>active_app = Some ''10'', active_status = Skachivanie,
      app_status = [(''10'', Skachivanie), (''20'', Pauza)], seen = [(''10'', 1), (''20'', 0)],
      speed = Some 12.5, speed_wall_ts = 2, speed_log_ts = ''2024-01-01 10:00:01'',
      speed_src = ''rate''\<rparr> =
     \<lparr>active_app = None, active_status = [],
      app_status = [(''10'', Gotovo), (''20'', Pauza)], seen = [(''10'', 5), (''20'', 0)],
      speed = None, speed_wall_ts = 0, speed_log_ts = ''2024-01-01 10:00:01'',
      speed_src = ''rate''\<rparr>
   \<and> map_of [(''10'', Gotovo), (''20'', Pauza)] ''10'' = Some Gotovo
   \<and> map_of [(''10'', 5::real), (''20'', 0)] ''10'' = Some 5
   \<and> apply_event 5 (SubjectFinished ''20'')
     \<lparr>active_app = Some ''10'', active_status = Skachivanie,
      app_status = [(''10'', Skachivanie), (''20'', Pauza)], seen = [(''10'', 1), (''20'', 0)],
      speed = Some 12.5, speed_wall_ts = 2, speed_log_ts = ''2024-01-01 10:00:01'',
      speed_src = ''rate''\<rparr> =
     \<lparr>active_app = Some ''10'', active_status = Skachivanie,
      app_status = [(''10'', Skachivanie), (''20'', Gotovo)], seen = [(''10'', 1), (''20'', 5)],
      speed = Some 12.5, speed_wall_ts = 2, speed_log_ts = ''2024-01-01 10:00:01'',
      speed_src = ''rate''\<rparr>"
proof -
  let ?S = "\<lparr>active_app = Some ''10'', active_status = Skachivanie,
      app_status = [(''10'', Skachivanie), (''20'', Pauza)], seen = [(''10'', 1), (''20'', 0)],
      speed = Some 12.5, speed_wall_ts = 2, speed_log_ts = ''2024-01-01 10:00:01'',
      speed_src = ''rate''\<rparr>"
  let ?A = "\<lparr>active_app = None, active_status = [],
      app_status = [(''10'', Gotovo), (''20'', Pauza)], seen = [(''10'', 5), (''20'', 0)],
      speed = None, speed_wall_ts = 0, speed_log_ts = ''2024-01-01 10:00:01'',
      speed_src = ''rate''\<rparr>"
  let ?B = "\<lparr>active_app = Some ''10'', active_status = Skachivanie,
      app_status = [(''10'', Skachivanie), (''20'', Gotovo)], seen = [(''10'', 1), (''20'', 5)],
      speed = Some 12.5, speed_wall_ts = 2, speed_log_ts = ''2024-01-01 10:00:01'',
      speed_src = ''rate''\<rparr>"
  have a: "?A = apply_event 5 (SubjectFinished ''10'') ?S" by code_simp
  have b: "?B = apply_event 5 (SubjectFinished ''20'') ?S" by code_simp
  from finished_event[OF a] finished_event[OF b] a b show ?thesis by simp
qed

section \<open>Metric events\<close>

lemma metric_step:
  assumes "metric_of ev = Some (v, ts, src)"
  shows "apply_event now ev st =
           st\<lparr>speed := Some v, speed_wall_ts := now, speed_log_ts := ts, speed_src := src\<rparr>"
  using assms by (cases ev) (auto simp: set_speed_def)

lemma metric_run:
  assumes "list_all (\<lambda>x. metric_of (snd x) \<noteq> None) xs"
  shows "\<exists>a b c d. apply_events xs st =
           st\<lparr>speed := a, speed_wall_ts := b, speed_log_ts := c, speed_src := d\<rparr>"
  using assms
proof (induction xs arbitrary: st)
  case Nil
  have "st = st\<lparr>speed := speed st, speed_wall_ts := speed_wall_ts st,
                speed_log_ts := speed_log_ts st, speed_src := speed_src st\<rparr>" by simp
  then show ?case by (metis apply_events.simps(1))
next
  case (Cons x xs)
  from Cons.prems obtain v ts src where
    ev: "metric_of (snd x) = Some (v, ts, src)" by auto
  let ?s1 = "st\<lparr>speed := Some v, speed_wall_ts := fst x, speed_log_ts := ts, speed_src := src\<rparr>"
  have 1: "apply_event (fst x) (snd x) st = ?s1" using ev by (rule metric_step)
  from Cons.prems have "list_all (\<lambda>x. metric_of (snd x) \<noteq> None) xs" by simp
  from Cons.IH[OF this, of ?s1] obtain a b c d where
    "apply_events xs ?s1 = ?s1\<lparr>speed := a, speed_wall_ts := b, speed_log_ts := c, speed_src := d\<rparr>"
    by blast
  then have "apply_events (x # xs) st =
      st\<lparr>speed := a, speed_wall_ts := b, speed_log_ts := c, speed_src := d\<rparr>"
    using 1 by simp
  then show ?case by blast
qed

lemma apply_events_append:
  "apply_events (xs @ ys) st = apply_events ys (apply_events xs st)"
  by (induction xs arbitrary: st) auto

text \<open>
  Claim C5.  Applying a metric event (the branches of \<open>parse_line\<close> at lines 206 to 219,
  which call \<open>_set_speed\<close>) to any tracker state replaces the metric sample by the
  value, the log time and the source tag of the event and the clock reading, and
  changes nothing else in the tracker state: the two dictionaries and the active
  subject are as before.  Hence after any sequence of metric events the sample is
  the one of the last event, whatever the source tags before it.
\<close>

theorem metric_last_writer:
  assumes "metric_of ev = Some (v, ts, src)"
      and "list_all (\<lambda>x. metric_of (snd x) \<noteq> None) xs"
  shows "apply_event now ev st =
           st\<lparr>speed := Some v, speed_wall_ts := now, speed_log_ts := ts, speed_src := src\<rparr>
       \<and> apply_events (xs @ [(now, ev)]) st =
           st\<lparr>speed := Some v, speed_wall_ts := now, speed_log_ts := ts, speed_src := src\<rparr>"
proof -
  from metric_run[OF assms(2), of st] obtain a b c d where
    r: "apply_events xs st = st\<lparr>speed := a, speed_wall_ts := b, speed_log_ts := c, speed_src := d\<rparr>"
    by blast
  show ?thesis
    using r by (simp add: apply_events_append metric_step[OF assms(1)])
qed

theorem metric_last_writer_witness:
  "metric_of (MetricRate 12.5 ''2024-01-01 10:00:01'') = Some (12.5, ''2024-01-01 10:00:01'', ''rate'')
   \<and> list_all (\<lambda>x. metric_of (snd x) \<noteq> None)
        [(1::real, MetricStats 9 ''2024-01-01 09:59:00''), (2, MetricDelta 11 ''2024-01-01 10:00:00'')]
   \<and> apply_events ([(1, MetricStats 9 ''2024-01-01 09:59:00''),
                     (2, MetricDelta 11 ''2024-01-01 10:00:00'')]
                    @ [(3, MetricRate 12.5 ''2024-01-01 10:00:01'')])
        \<lparr>active_app = Some ''10'', active_status = Skachivanie,
         app_status = [(''10'', Skachivanie)], seen = [(''10'', 1)],
         speed = None, speed_wall_ts = 0, speed_log_ts = [], speed_src = []\<rparr> =
       \<lparr>active_app = Some ''10'', active_status = Skachivanie,
        app_status = [(''10'', Skachivanie)], seen = [(''10'', 1)],
        speed = Some 12.5, speed_wall_ts = 3, speed_log_ts = ''2024-01-01 10:00:01'',
        speed_src = ''rate''\<rparr>"
proof -
  have m: "metric_of (MetricRate 12.5 ''2024-01-01 10:00:01'') =
             Some (12.5, ''2024-01-01 10:00:01'', ''rate'')" by simp
  have l: "list_all (\<lambda>x. metric_of (snd x) \<noteq> None)
        [(1::real, MetricStats 9 ''2024-01-01 09:59:00''), (2, MetricDelta 11 ''2024-01-01 10:00:00'')]"
    by simp
  from metric_last_writer[OF m l, of 3
         "\<lparr>active_app = Some ''10'', active_status = Skachivanie,
         app_status = [(''10'', Skachivanie)], seen = [(''10'', 1)],
         speed = None, speed_wall_ts = 0, speed_log_ts = [], speed_src = []\<rparr>"] m l
  show ?thesis by simp
qed

section \<open>The report\<close>

lemma report_tick_shown:
  assumes "pick_active st = Some a" and "a \<noteq> []"
      and "manifest_name a = Some name" and "name \<noteq> []"
  shows "report_tick manifest_name fmt out_time now st =
           (let ss = effective_status st a in
            if ss = Pauza then ''['' @ out_time @ ''] '' @ name @ '' | '' @ ss
            else if speed st = None \<or> 300 < now - speed_wall_ts st
            then ''['' @ out_time @ ''] '' @ name @ '' | '' @ ss @ '' | '' @ Skorost @ '': ?''
            else ''['' @ out_time @ ''] '' @ name @ '' | '' @ ss @ '' | '' @ Skorost @ '': ''
                 @ fmt (the (speed st)) @ '' Mbps | '')"
  using assms by (simp add: report_tick_def Let_def not_le)

lemma report_tick_nothing:
  assumes "pick_active st = None \<or> pick_active st = Some []
         \<or> (\<exists>a. pick_active st = Some a \<and> (manifest_name a = None \<or> manifest_name a = Some []))"
  shows "report_tick manifest_name fmt out_time now st = ''['' @ out_time @ ''] '' @ Nichego"
  using assms by (auto simp: report_tick_def Let_def)

text \<open>
  Claim C9.  At a report for which a subject is selected and the name lookup returns no
  name for it, the line printed is the message that nothing is being downloaded; no
  status and no speed is shown, and the report does not fail.
\<close>

theorem unresolved_subject_nothing_active:
  assumes "pick_active st = Some a" and "manifest_name a = None"
  shows "report_tick manifest_name fmt out_time now st = ''['' @ out_time @ ''] '' @ Nichego"
  using assms by (simp add: report_tick_nothing)

theorem unresolved_subject_nothing_active_witness:
  "pick_active \<lparr>active_app = Some ''10'', active_status = Skachivanie,
                app_status = [(''10'', Skachivanie)], seen = [(''10'', 1)],
                speed = Some 12.5, speed_wall_ts = 2, speed_log_ts = ''2024-01-01 10:00:01'',
                speed_src = ''rate''\<rparr> = Some ''10''
   \<and> report_tick (\<lambda>k. None) (\<lambda>v. ''12.500'') ''2024-01-01 10:00:02'' 3
        \<lparr>active_app = Some ''10'', active_status = Skachivanie,
         app_status = [(''10'', Skachivanie)], seen = [(''10'', 1)],
         speed = Some 12.5, speed_wall_ts = 2, speed_log_ts = ''2024-01-01 10:00:01'',
         speed_src = ''rate''\<rparr> = ''[2024-01-01 10:00:02] '' @ Nichego"
proof -
  let ?S = "\<lparr>active_app = Some ''10'', active_status = Skachivanie,
                app_status = [(''10'', Skachivanie)], seen = [(''10'', 1)],
                speed = Some 12.5, speed_wall_ts = 2, speed_log_ts = ''2024-01-01 10:00:01'',
                speed_src = ''rate''\<rparr>"
  have p: "pick_active ?S = Some ''10''" by (simp add: pick_active_def)
  have m: "(\<lambda>k::string. None::string option) ''10'' = None" by simp
  from unresolved_subject_nothing_active[OF p m, of "\<lambda>v. ''12.500''" "''2024-01-01 10:00:02''" 3] p
  show ?thesis by simp
qed

text \<open>
  Claim C3, amended.  At a report with a selected subject whose name is found, the
  status shown is the entry of the subject in the status dictionary if there is one,
  otherwise the cached status of the active subject; if that text is empty the
  placeholder "?" is shown.  The entry of the dictionary has precedence over the
  cached status.
\<close>

theorem status_entry_precedes_cache:
  assumes "pick_active st = Some a" and "a \<noteq> []"
      and "manifest_name a = Some name" and "name \<noteq> []"
  shows "effective_status st a =
           (case map_of (app_status st) a of
              Some v \<Rightarrow> if v \<noteq> [] then v else ''?''
            | None \<Rightarrow> if active_status st \<noteq> [] then active_status st else ''?'')
       \<and> (\<exists>rest. report_tick manifest_name fmt out_time now st =
             ''['' @ out_time @ ''] '' @ name @ '' | '' @ effective_status st a @ rest)"
proof -
  have "effective_status st a =
           (case map_of (app_status st) a of
              Some v \<Rightarrow> if v \<noteq> [] then v else ''?''
            | None \<Rightarrow> if active_status st \<noteq> [] then active_status st else ''?'')"
    by (simp add: effective_status_def dict_get_def Let_def split: option.splits)
  moreover have "\<exists>rest. report_tick manifest_name fmt out_time now st =
             ''['' @ out_time @ ''] '' @ name @ '' | '' @ effective_status st a @ rest"
    unfolding report_tick_shown[where manifest_name=manifest_name and a=a, OF assms] Let_def by auto
  ultimately show ?thesis by blast
qed

theorem status_entry_precedes_cache_witness:
  "effective_status \<lparr>active_app = Some ''10'', active_status = Skachivanie,
                     app_status = [(''10'', Net)], seen = [(''10'', 2)],
                     speed = None, speed_wall_ts = 0, speed_log_ts = [], speed_src = []\<rparr> ''10'' = Net
   \<and> (\<exists>rest. report_tick (\<lambda>k. if k = ''10'' then Some ''Game X'' else None) (\<lambda>v. ''12.500'')
                ''2024-01-01 10:06:00'' 400
                \<lparr>active_app = Some ''10'', active_status = Skachivanie,
                 app_status = [(''10'', Net)], seen = [(''10'', 2)],
                 speed = None, speed_wall_ts = 0, speed_log_ts = [], speed_src = []\<rparr> =
              ''[2024-01-01 10:06:00] Game X | '' @ Net @ rest)"
proof -
  let ?S = "\<lparr>active_app = Some ''10'', active_status = Skachivanie,
                     app_status = [(''10'', Net)], seen = [(''10'', 2)],
                     speed = None, speed_wall_ts = 0, speed_log_ts = [], speed_src = []\<rparr>"
  let ?R = "\<lambda>k. if k = ''10'' then Some ''Game X'' else None"
  have p: "pick_active ?S = Some ''10''" by (simp add: pick_active_def)
  have a: "''10'' \<noteq> []" by simp
  have m: "?R ''10'' = Some ''Game X''" by simp
  have n: "''Game X'' \<noteq> []" by simp
  have e: "effective_status ?S ''10'' = Net"
    by (simp add: effective_status_def dict_get_def Net_def)
  from status_entry_precedes_cache[where manifest_name="?R" and a="''10''" and st="?S"
         and name="''Game X''" and fmt="\<lambda>v. ''12.500''" and out_time="''2024-01-01 10:06:00''"
         and now=400, OF p a m n] e
  show ?thesis by simp
qed

text \<open>
  Claim C3 as stated fails: for the state reached by "update started" and then
  "update changed : None" for subject 10, the cached status "downloading" is present,
  yet the line printed shows the idle label of the status dictionary.
\<close>

theorem cached_status_precedence_counterexample:
  "report_tick (\<lambda>k. if k = ''10'' then Some ''Game X'' else None) (\<lambda>v. ''12.500'')
     ''2024-01-01 10:06:00'' 400
     \<lparr>active_app = Some ''10'', active_status = Skachivanie,
      app_status = [(''10'', Net)], seen = [(''10'', 2)],
      speed = None, speed_wall_ts = 0, speed_log_ts = [], speed_src = []\<rparr> =
     ''[2024-01-01 10:06:00] Game X | '' @ Net @ '' | '' @ Skorost @ '': ?''
   \<and> ''[2024-01-01 10:06:00] Game X | '' @ Net @ '' | '' @ Skorost @ '': ?'' \<noteq>
     ''[2024-01-01 10:06:00] Game X | '' @ Skachivanie @ '' | '' @ Skorost @ '': ?''"
  by code_simp

text \<open>
  Claim C6, amended.  At every report, a metric sample that is absent or was received
  more than 300 seconds before the clock reading is not shown as a number: the line
  is the message that nothing is being downloaded, the line of a paused subject, or
  the line with the placeholder for the speed.  At a report that shows a subject whose
  status is not the paused label, a sample received at most 300 seconds before is
  shown as a number followed by the unit, and an absent or older sample as the
  placeholder.
\<close>

theorem stale_sample_not_shown:
  "(speed st = None \<or> 300 < now - speed_wall_ts st \<longrightarrow>
      report_tick manifest_name fmt out_time now st \<in>
        {''['' @ out_time @ ''] '' @ Nichego,
         ''['' @ out_time @ ''] '' @ the (manifest_name (the (pick_active st))) @ '' | ''
           @ effective_status st (the (pick_active st)),
         ''['' @ out_time @ ''] '' @ the (manifest_name (the (pick_active st))) @ '' | ''
           @ effective_status st (the (pick_active st)) @ '' | '' @ Skorost @ '': ?''})
   \<and> (pick_active st = Some a \<and> a \<noteq> [] \<and> manifest_name a = Some name \<and> name \<noteq> []
        \<and> effective_status st a \<noteq> Pauza \<longrightarrow>
        (speed st = None \<or> 300 < now - speed_wall_ts st \<longrightarrow>
           report_tick manifest_name fmt out_time now st =
             ''['' @ out_time @ ''] '' @ name @ '' | '' @ effective_status st a @ '' | ''
             @ Skorost @ '': ?'')
      \<and> (speed st = Some v \<and> now - speed_wall_ts st \<le> 300 \<longrightarrow>
           (\<exists>rest. report_tick manifest_name fmt out_time now st =
             ''['' @ out_time @ ''] '' @ name @ '' | '' @ effective_status st a @ '' | ''
             @ Skorost @ '': '' @ fmt v @ '' Mbps'' @ rest)))"
proof -
  have A: "report_tick manifest_name fmt out_time now st \<in>
        {''['' @ out_time @ ''] '' @ Nichego,
         ''['' @ out_time @ ''] '' @ the (manifest_name (the (pick_active st))) @ '' | ''
           @ effective_status st (the (pick_active st)),
         ''['' @ out_time @ ''] '' @ the (manifest_name (the (pick_active st))) @ '' | ''
           @ effective_status st (the (pick_active st)) @ '' | '' @ Skorost @ '': ?''}"
    if stale: "speed st = None \<or> 300 < now - speed_wall_ts st"
  proof (cases "\<exists>a name. pick_active st = Some a \<and> a \<noteq> [] \<and> manifest_name a = Some name \<and> name \<noteq> []")
    case True
    then obtain a name where h: "pick_active st = Some a" "a \<noteq> []"
      "manifest_name a = Some name" "name \<noteq> []" by blast
    show ?thesis
      unfolding report_tick_shown[where manifest_name=manifest_name and a=a, OF h] using stale h by (simp add: Let_def)
  next
    case False
    then have "pick_active st = None \<or> pick_active st = Some []
         \<or> (\<exists>a. pick_active st = Some a \<and> (manifest_name a = None \<or> manifest_name a = Some []))"
      by (cases "pick_active st") (auto, metis not_Some_eq)
    then show ?thesis by (simp add: report_tick_nothing)
  qed
  have B: "report_tick manifest_name fmt out_time now st =
             ''['' @ out_time @ ''] '' @ name @ '' | '' @ effective_status st a @ '' | ''
             @ Skorost @ '': ?''"
    if "pick_active st = Some a" "a \<noteq> []" "manifest_name a = Some name" "name \<noteq> []"
       "effective_status st a \<noteq> Pauza" "speed st = None \<or> 300 < now - speed_wall_ts st"
    unfolding report_tick_shown[where manifest_name=manifest_name and a=a, OF that(1-4)] using that(5,6) by (simp add: Let_def)
  have C: "\<exists>rest. report_tick manifest_name fmt out_time now st =
             ''['' @ out_time @ ''] '' @ name @ '' | '' @ effective_status st a @ '' | ''
             @ Skorost @ '': '' @ fmt v @ '' Mbps'' @ rest"
    if "pick_active st = Some a" "a \<noteq> []" "manifest_name a = Some name" "name \<noteq> []"
       "effective_status st a \<noteq> Pauza" "speed st = Some v" "now - speed_wall_ts st \<le> 300"
    unfolding report_tick_shown[where manifest_name=manifest_name and a=a, OF that(1-4)] using that(5,6,7) by (simp add: Let_def)
  show ?thesis using A B C by blast
qed

theorem stale_sample_not_shown_witness:
  "report_tick (\<lambda>k. if k = ''10'' then Some ''Game X'' else None) (\<lambda>v. ''12.500'')
     ''2024-01-01 10:06:00'' 303
     \<lparr>active_app = Some ''10'', active_status = Skachivanie,
      app_status = [(''10'', Skachivanie)], seen = [(''10'', 1)],
      speed = Some 12.5, speed_wall_ts = 2, speed_log_ts = ''2024-01-01 10:00:01'',
      speed_src = ''rate''\<rparr> =
     ''[2024-01-01 10:06:00] Game X | '' @ Skachivanie @ '' | '' @ Skorost @ '': ?''
   \<and> (\<exists>rest. report_tick (\<lambda>k. if k = ''10'' then Some ''Game X'' else None) (\<lambda>v. ''12.500'')
        ''2024-01-01 10:05:00'' 302
        \<lparr>active_app = Some ''10'', active_status = Skachivanie,
         app_status = [(''10'', Skachivanie)], seen = [(''10'', 1)],
         speed = Some 12.5, speed_wall_ts = 2, speed_log_ts = ''2024-01-01 10:00:01'',
         speed_src = ''rate''\<rparr> =
        ''[2024-01-01 10:05:00] Game X | '' @ Skachivanie @ '' | '' @ Skorost @ '': 12.500 Mbps''
          @ rest)"
proof -
  let ?S = "\<lparr>active_app = Some ''10'', active_status = Skachivanie,
      app_status = [(''10'', Skachivanie)], seen = [(''10'', 1)],
      speed = Some 12.5, speed_wall_ts = 2, speed_log_ts = ''2024-01-01 10:00:01'',
      speed_src = ''rate''\<rparr>"
  let ?R = "\<lambda>k. if k = ''10'' then Some ''Game X'' else None"
  have p: "pick_active ?S = Some ''10''" by (simp add: pick_active_def)
  have e: "effective_status ?S ''10'' = Skachivanie"
    by (simp add: effective_status_def dict_get_def Skachivanie_def)
  have ne: "Skachivanie \<noteq> Pauza" by (simp add: Skachivanie_def Pauza_def)
  have 1: "report_tick ?R (\<lambda>v. ''12.500'') ''2024-01-01 10:06:00'' 303 ?S =
     ''[2024-01-01 10:06:00] Game X | '' @ Skachivanie @ '' | '' @ Skorost @ '': ?''"
    using stale_sample_not_shown[where st="?S" and now=303 and manifest_name="?R"
        and fmt="\<lambda>v. ''12.500''" and out_time="''2024-01-01 10:06:00''" and a="''10''"
        and name="''Game X''" and v="12.5"]
      p e ne by simp
  have 2: "\<exists>rest. report_tick ?R (\<lambda>v. ''12.500'') ''2024-01-01 10:05:00'' 302 ?S =
        ''[2024-01-01 10:05:00] Game X | '' @ Skachivanie @ '' | '' @ Skorost @ '': 12.500 Mbps''
          @ rest"
    using stale_sample_not_shown[where st="?S" and now=302 and manifest_name="?R"
        and fmt="\<lambda>v. ''12.500''" and out_time="''2024-01-01 10:05:00''" and a="''10''"
        and name="''Game X''" and v="12.5"]
      p e ne by simp
  from 1 2 show ?thesis by blast
qed

text \<open>
  Claim C6 as stated fails: a sample received one second before the report is present,
  yet the line of a paused subject shows no number.
\<close>

theorem fresh_sample_paused_counterexample:
  "report_tick (\<lambda>k. if k = ''10'' then Some ''Game X'' else None) (\<lambda>v. ''12.500'')
     ''2024-01-01 10:00:03'' 3
     \<lparr>active_app = Some ''10'', active_status = Pauza,
      app_status = [(''10'', Pauza)], seen = [(''10'', 2)],
      speed = Some 12.5, speed_wall_ts = 2, speed_log_ts = ''2024-01-01 10:00:01'',
      speed_src = ''rate''\<rparr> = ''[2024-01-01 10:00:03] Game X | '' @ Pauza
   \<and> (3::real) - 2 \<le> 300"
  by code_simp

text \<open>
  Claim C8.  The line for a named subject that is not paused and has a fresh sample
  should end with the unit.  The source writes a separator and a space after the
  unit: for subject 10 named "Game X", downloading at 12.5, the line printed is
  the one below, whatever the formatting of the number.
\<close>

theorem fresh_line_trailing_separator:
  "report_tick (\<lambda>k. if k = ''10'' then Some ''Game X'' else None) fmt
     ''2024-01-01 10:00:02'' 2
     \<lparr>active_app = Some ''10'', active_status = Skachivanie,
      app_status = [(''10'', Skachivanie)], seen = [(''10'', 0)],
      speed = Some 12.5, speed_wall_ts = 1, speed_log_ts = ''2024-01-01 10:00:01'',
      speed_src = ''rate''\<rparr> =
     ''[2024-01-01 10:00:02] Game X | '' @ Skachivanie @ '' | '' @ Skorost @ '': ''
       @ fmt 12.5 @ '' Mbps | ''"
  by (simp add: report_tick_def pick_active_def effective_status_def dict_get_def Let_def
        Skachivanie_def Pauza_def)

section \<open>Reopening the log after it shrank\<close>

lemma first_line_length: "length (first_line s) \<le> length s"
  by (induction s rule: first_line.induct) (auto split: list.splits)

lemma first_line_prefix: "take (length (first_line s)) s = first_line s"
proof (induction s)
  case Nil
  show ?case by simp
next
  case (Cons c cs)
  show ?case
  proof (cases "c = CHR 0x0A \<or> c = CHR 0x0D")
    case True
    then show ?thesis by (cases cs) auto
  next
    case False
    then have fl: "first_line (c # cs) = c # first_line cs" by simp
    have "take (length (c # first_line cs)) (c # cs) = c # take (length (first_line cs)) cs"
      by simp
    also have "\<dots> = c # first_line cs" by (simp only: Cons.IH)
    finally show ?thesis unfolding fl .
  qed
qed

lemma first_line_nonempty: "s \<noteq> [] \<Longrightarrow> first_line s \<noteq> []"
proof (cases s)
  case Nil
  then show "s \<noteq> [] \<Longrightarrow> ?thesis" by simp
next
  case (Cons c cs)
  show ?thesis unfolding Cons by (cases cs) simp_all
qed

lemma line_ok_Cons:
  "\<not> eol c \<Longrightarrow> l \<noteq> [] \<Longrightarrow> line_ok l rest \<Longrightarrow> line_ok (c # l) rest"
  by (auto simp: line_ok_def Let_def)

lemma line_ok_lf: "line_ok [CHR 0x0A] rest"
  by (simp add: line_ok_def eol_def)

lemma line_ok_crlf: "line_ok [CHR 0x0D, CHR 0x0A] rest"
  by (simp add: line_ok_def eol_def)

lemma line_ok_cr_end: "line_ok [CHR 0x0D] []"
  by (simp add: line_ok_def eol_def)

lemma line_ok_cr: "d \<noteq> CHR 0x0A \<Longrightarrow> line_ok [CHR 0x0D] (d # ds)"
  by (simp add: line_ok_def eol_def)

lemma line_ok_last: "\<not> eol c \<Longrightarrow> line_ok [c] []"
  by (simp add: line_ok_def)

lemma first_line_line_ok:
  "s \<noteq> [] \<Longrightarrow> line_ok (first_line s) (drop (length (first_line s)) s)"
proof (induction s)
  case Nil
  then show ?case by simp
next
  case (Cons c cs)
  show ?case
  proof (cases "c = CHR 0x0A")
    case True
    then have "first_line (c # cs) = [CHR 0x0A]" by simp
    then show ?thesis by (simp add: line_ok_lf)
  next
    case nlf: False
    show ?thesis
    proof (cases "c = CHR 0x0D")
      case True
      show ?thesis
      proof (cases cs)
        case Nil
        with True have "first_line (c # cs) = [CHR 0x0D]" by simp
        then show ?thesis using Nil by (simp add: line_ok_cr_end)
      next
        case (Cons d ds)
        show ?thesis
        proof (cases "d = CHR 0x0A")
          case dl: True
          with True Cons have "first_line (c # cs) = [CHR 0x0D, CHR 0x0A]" by simp
          then show ?thesis by (simp add: line_ok_crlf)
        next
          case dn: False
          with True Cons have "first_line (c # cs) = [CHR 0x0D]" by simp
          then show ?thesis using Cons dn by (simp add: line_ok_cr)
        qed
      qed
    next
      case ncr: False
      from nlf ncr have ne: "\<not> eol c" by (simp add: eol_def)
      from nlf ncr have fl: "first_line (c # cs) = c # first_line cs" by simp
      show ?thesis
      proof (cases "cs = []")
        case True
        then show ?thesis unfolding fl using ne by (simp add: line_ok_last)
      next
        case cs: False
        from Cons.IH[OF cs] have "line_ok (first_line cs) (drop (length (first_line cs)) cs)" .
        with ne first_line_nonempty[OF cs]
        have "line_ok (c # first_line cs) (drop (length (first_line cs)) cs)"
          by (intro line_ok_Cons)
        then show ?thesis unfolding fl by simp
      qed
    qed
  qed
qed

lemma split_acc_first_line:
  "acc \<noteq> [] \<or> s \<noteq> [] \<Longrightarrow>
   split_acc acc s = (rev acc @ first_line s) # split_acc [] (drop (length (first_line s)) s)"
proof (induction s arbitrary: acc)
  case Nil
  then show ?case by simp
next
  case (Cons c cs)
  show ?case
  proof (cases "c = CHR 0x0A \<or> c = CHR 0x0D")
    case True
    then show ?thesis by (cases cs) auto
  next
    case False
    then have fl: "first_line (c # cs) = c # first_line cs" by simp
    have sa: "split_acc acc (c # cs) = split_acc (c # acc) cs" using False by simp
    have ih: "split_acc (c # acc) cs =
        (rev (c # acc) @ first_line cs) # split_acc [] (drop (length (first_line cs)) cs)"
      by (rule Cons.IH) simp
    show ?thesis unfolding fl sa ih by simp
  qed
qed

lemma file_lines_unfold:
  "s \<noteq> [] \<Longrightarrow> file_lines s = first_line s # file_lines (drop (length (first_line s)) s)"
  using split_acc_first_line[of "[]" s] by (simp add: file_lines_def)

lemma lines_ok_file_lines: "lines_ok (file_lines s) s"
proof (induction "length s" arbitrary: s rule: less_induct)
  case less
  show ?case
  proof (cases "s = []")
    case True
    then show ?thesis by (simp add: file_lines_def)
  next
    case False
    let ?l = "first_line s"
    have "length (drop (length ?l) s) < length s"
      using first_line_nonempty[OF False] False by (cases s) auto
    from less[OF this] have "lines_ok (file_lines (drop (length ?l) s)) (drop (length ?l) s)" .
    then show ?thesis
      unfolding file_lines_unfold[OF False]
      using first_line_prefix[of s] first_line_line_ok[OF False] by simp
  qed
qed

lemma lines_ok_concat: "lines_ok ls s \<Longrightarrow> concat ls = s"
proof (induction ls arbitrary: s)
  case Nil
  then show ?case by simp
next
  case (Cons l ls)
  then have "concat ls = drop (length l) s" "take (length l) s = l" by simp_all
  then show ?case by (metis append_take_drop_id concat.simps(2))
qed

lemma line_offsets_bounds:
  "o' \<in> set (line_offsets off ls) \<Longrightarrow> off \<le> o' \<and> o' \<le> off + length (concat ls)"
  by (induction ls arbitrary: off) fastforce+

lemma replay_feed_all:
  "replay feed ls off s tr =
     (case feed_all feed off ls s of
        Inl e \<Rightarrow> Inl e
      | Inr s' \<Rightarrow> Inr (off + length (concat ls), s',
                        tr @ map Read (line_offsets off ls) @ [Read (off + length (concat ls))]))"
  by (induction ls arbitrary: off s tr) (auto split: sum.splits simp: add.assoc)

lemma window_start_le: "window_start content \<le> length content"
  by (auto simp: window_start_def)

text \<open>
  Claim C7.  When the size of the file is below the cursor, the turn of the loop reopens
  the file, whatever the parser does with a line: it positions the handle at
  \<open>max(0, size - 200000)\<close>; exactly when that offset is positive it reads one line
  there, the rest of the line the offset falls into, and drops it; from the offset
  \<open>k\<close> it has reached it feeds every line of the rest of the file to the parser, in
  order; it sets the cursor to the end of the file; and the turn reads once more at
  the end and finds nothing.  No read of the turn is at an offset beyond the size of
  the file, so none is at the old cursor.  For a cursor of 1000 and a file of 50
  bytes, the replay starts at offset 0 and no read is at offset 1000.
\<close>

theorem rotation_reopen:
  assumes "length content < pos t"
  shows "\<exists>k ls.
           (window_start content = 0 \<longrightarrow> k = 0)
         \<and> (0 < window_start content \<longrightarrow>
              window_start content < k
              \<and> line_ok (take (k - window_start content) (drop (window_start content) content))
                        (drop k content))
         \<and> k \<le> length content
         \<and> lines_ok ls (drop k content)
         \<and> tail_iter feed (Some content) t =
             (case feed_all feed k ls (tstate t) of
                Inl e \<Rightarrow> Inl e
              | Inr s \<Rightarrow>
                  Inr \<lparr>pos = length content, fh = length content, tstate = s,
                       reads = reads t @ [Seek (window_start content)]
                               @ (if 0 < window_start content
                                  then [Read (window_start content)] else [])
                               @ map Read (line_offsets k ls)
                               @ [Read (length content), Read (length content)]\<rparr>)
         \<and> (\<forall>o'\<in>set (line_offsets k ls). o' \<le> length content)
         \<and> pos t \<notin> set ([window_start content] @ line_offsets k ls @ [length content])
         \<and> (length content = 50 \<and> pos t = 1000 \<longrightarrow>
              window_start content = 0 \<and> k = 0
              \<and> 1000 \<notin> set ([window_start content] @ line_offsets k ls @ [length content]))"
proof -
  define start where "start = window_start content"
  define k where "k = (if 0 < start then start + length (first_line (drop start content)) else 0)"
  define ls where "ls = file_lines (drop k content)"
  have s: "start \<le> length content" unfolding start_def by (rule window_start_le)
  have fl: "length (first_line (drop start content)) \<le> length content - start"
    using first_line_length[of "drop start content"] by simp
  have k: "k \<le> length content" using s fl by (auto simp: k_def)
  have lo: "lines_ok ls (drop k content)" unfolding ls_def by (rule lines_ok_file_lines)
  then have c: "concat ls = drop k content" by (rule lines_ok_concat)
  have p0: "start = 0 \<longrightarrow> k = 0" by (simp add: k_def)
  have p1: "start < k \<and> line_ok (take (k - start) (drop start content)) (drop k content)"
    if "0 < start"
  proof -
    have ne: "drop start content \<noteq> []"
      using that by (auto simp: start_def window_start_def)
    let ?l = "first_line (drop start content)"
    have kk: "k = start + length ?l" using that by (simp add: k_def)
    have "?l \<noteq> []" using ne by (rule first_line_nonempty)
    then have 1: "start < k" using kk by simp
    have "line_ok ?l (drop (length ?l) (drop start content))"
      using ne by (rule first_line_line_ok)
    moreover have "take (k - start) (drop start content) = ?l"
      using first_line_prefix[of "drop start content"] kk by simp
    moreover have "drop (length ?l) (drop start content) = drop k content"
      using kk by (simp add: add.commute)
    ultimately show ?thesis using 1 by simp
  qed
  have len: "k + length (concat ls) = length content" using k c by simp
  have ro: "reopen_tail feed content t =
               (case feed_all feed k ls (tstate t) of
                  Inl e \<Rightarrow> Inl e
                | Inr s \<Rightarrow> Inr \<lparr>pos = length content, fh = length content, tstate = s,
                                reads = reads t @ [Seek start]
                                        @ (if 0 < start then [Read start] else [])
                                        @ map Read (line_offsets k ls) @ [Read (length content)]\<rparr>)"
  proof (cases "0 < start")
    case True
    with len show ?thesis
      unfolding reopen_tail_def Let_def replay_feed_all window_start_def[symmetric]
        start_def[symmetric]
      by (simp add: k_def ls_def split: sum.splits)
  next
    case False
    with len show ?thesis
      unfolding reopen_tail_def Let_def replay_feed_all window_start_def[symmetric]
        start_def[symmetric]
      by (simp add: k_def ls_def split: sum.splits)
  qed
  have 1: "tail_iter feed (Some content) t =
             (case feed_all feed k ls (tstate t) of
                Inl e \<Rightarrow> Inl e
              | Inr s \<Rightarrow>
                  Inr \<lparr>pos = length content, fh = length content, tstate = s,
                       reads = reads t @ [Seek start]
                               @ (if 0 < start then [Read start] else [])
                               @ map Read (line_offsets k ls)
                               @ [Read (length content), Read (length content)]\<rparr>)"
    using assms by (simp add: tail_iter_def ro split: sum.splits)
  have 2: "o' \<le> length content" if "o' \<in> set (line_offsets k ls)" for o'
    using line_offsets_bounds[OF that] len by simp
  have 3: "pos t \<notin> set ([start] @ line_offsets k ls @ [length content])"
    using 2[of "pos t"] assms s by auto
  have 4: "start = 0 \<and> k = 0 \<and> 1000 \<notin> set ([start] @ line_offsets k ls @ [length content])"
    if "length content = 50" "pos t = 1000"
  proof -
    have "start = 0" using that by (simp add: start_def window_start_def)
    moreover from this have "k = 0" by (simp add: k_def)
    ultimately show ?thesis using 3 that by simp
  qed
  have f2: "0 < start \<longrightarrow>
              start < k
              \<and> line_ok (take (k - start) (drop start content)) (drop k content)"
    using p1 by (rule impI)
  have f6: "\<forall>o'\<in>set (line_offsets k ls). o' \<le> length content"
    using 2 by (rule ballI)
  have f8: "length content = 50 \<and> pos t = 1000 \<longrightarrow>
              start = 0 \<and> k = 0
              \<and> 1000 \<notin> set ([start] @ line_offsets k ls @ [length content])"
  proof
    assume "length content = 50 \<and> pos t = 1000"
    then show "start = 0 \<and> k = 0
              \<and> 1000 \<notin> set ([start] @ line_offsets k ls @ [length content])"
      using 4 by (elim conjE)
  qed
  show ?thesis
    unfolding start_def[symmetric]
    apply (rule exI[of _ k])
    apply (rule exI[of _ ls])
    apply (intro conjI)
           apply (rule p0)
          apply (rule f2)
         apply (rule k)
        apply (rule lo)
       apply (rule 1)
      apply (rule f6)
     apply (rule 3)
    apply (rule f8)
    done
qed

lemma first_line_plain_run:
  "\<forall>c\<in>set p. \<not> eol c \<Longrightarrow> first_line (p @ CHR 0x0A # r) = p @ [CHR 0x0A]"
  by (induction p) (auto simp: eol_def)

theorem rotation_reopen_witness:
  "(length ''[2024-01-01 10:00:00] AppID 10 update started:\<newline>ab\<newline>''
     < pos \<lparr>pos = 1000, fh = 1000, tstate = State0, reads = []\<rparr>
   \<and> (\<exists>k ls. k = 0
        \<and> lines_ok ls ''[2024-01-01 10:00:00] AppID 10 update started:\<newline>ab\<newline>''
        \<and> tail_iter (feed_line (\<lambda>o'. 7))
            (Some ''[2024-01-01 10:00:00] AppID 10 update started:\<newline>ab\<newline>'')
            \<lparr>pos = 1000, fh = 1000, tstate = State0, reads = []\<rparr> =
           (case feed_all (feed_line (\<lambda>o'. 7)) k ls State0 of
              Inl e \<Rightarrow> Inl e
            | Inr s \<Rightarrow> Inr \<lparr>pos = 50, fh = 50, tstate = s,
                            reads = [Seek 0] @ map Read (line_offsets k ls) @ [Read 50, Read 50]\<rparr>)
        \<and> 1000 \<notin> set ([0] @ line_offsets k ls @ [50]))
   \<and> tail_iter (feed_line (\<lambda>o'. 7))
        (Some ''[2024-01-01 10:00:00] AppID 10 update started:\<newline>ab\<newline>'')
        \<lparr>pos = 1000, fh = 1000, tstate = State0, reads = []\<rparr> =
       Inr \<lparr>pos = 50, fh = 50,
            tstate = \<lparr>active_app = Some ''10'', active_status = Skachivanie,
                      app_status = [(''10'', Skachivanie)], seen = [(''10'', 7)],
                      speed = None, speed_wall_ts = 0, speed_log_ts = [], speed_src = []\<rparr>,
            reads = [Seek 0, Read 0, Read 47, Read 50, Read 50]\<rparr>)
 \<and> (length (replicate 199954 (CHR ''z'') @ ''\<newline>[2024-01-01 10:00:00] AppID 10 update started:\<newline>'')
     < pos \<lparr>pos = 300000, fh = 300000, tstate = State0, reads = []\<rparr>
   \<and> (\<exists>k ls. 2 < k \<and> k \<le> 200002
        \<and> line_ok (take (k - 2) (drop 2 (replicate 199954 (CHR ''z'') @ ''\<newline>[2024-01-01 10:00:00] AppID 10 update started:\<newline>'')))
             (drop k (replicate 199954 (CHR ''z'') @ ''\<newline>[2024-01-01 10:00:00] AppID 10 update started:\<newline>''))
        \<and> lines_ok ls (drop k (replicate 199954 (CHR ''z'') @ ''\<newline>[2024-01-01 10:00:00] AppID 10 update started:\<newline>''))
        \<and> tail_iter (feed_line (\<lambda>o'. 7))
            (Some (replicate 199954 (CHR ''z'') @ ''\<newline>[2024-01-01 10:00:00] AppID 10 update started:\<newline>''))
            \<lparr>pos = 300000, fh = 300000, tstate = State0, reads = []\<rparr> =
           (case feed_all (feed_line (\<lambda>o'. 7)) k ls State0 of
              Inl e \<Rightarrow> Inl e
            | Inr s \<Rightarrow> Inr \<lparr>pos = 200002, fh = 200002, tstate = s,
                            reads = [Seek 2, Read 2] @ map Read (line_offsets k ls)
                                    @ [Read 200002, Read 200002]\<rparr>))
   \<and> tail_iter (feed_line (\<lambda>o'. 7))
        (Some (replicate 199954 (CHR ''z'') @ ''\<newline>[2024-01-01 10:00:00] AppID 10 update started:\<newline>''))
        \<lparr>pos = 300000, fh = 300000, tstate = State0, reads = []\<rparr> =
       Inr \<lparr>pos = 200002, fh = 200002,
            tstate = \<lparr>active_app = Some ''10'', active_status = Skachivanie,
                      app_status = [(''10'', Skachivanie)], seen = [(''10'', 7)],
                      speed = None, speed_wall_ts = 0, speed_log_ts = [], speed_src = []\<rparr>,
            reads = [Seek 2, Read 2, Read 199955, Read 200002, Read 200002]\<rparr>)"
proof (rule conjI)
  show "length ''[2024-01-01 10:00:00] AppID 10 update started:\<newline>ab\<newline>''
     < pos \<lparr>pos = 1000, fh = 1000, tstate = State0, reads = []\<rparr>
   \<and> (\<exists>k ls. k = 0
        \<and> lines_ok ls ''[2024-01-01 10:00:00] AppID 10 update started:\<newline>ab\<newline>''
        \<and> tail_iter (feed_line (\<lambda>o'. 7))
            (Some ''[2024-01-01 10:00:00] AppID 10 update started:\<newline>ab\<newline>'')
            \<lparr>pos = 1000, fh = 1000, tstate = State0, reads = []\<rparr> =
           (case feed_all (feed_line (\<lambda>o'. 7)) k ls State0 of
              Inl e \<Rightarrow> Inl e
            | Inr s \<Rightarrow> Inr \<lparr>pos = 50, fh = 50, tstate = s,
                            reads = [Seek 0] @ map Read (line_offsets k ls) @ [Read 50, Read 50]\<rparr>)
        \<and> 1000 \<notin> set ([0] @ line_offsets k ls @ [50]))
   \<and> tail_iter (feed_line (\<lambda>o'. 7))
        (Some ''[2024-01-01 10:00:00] AppID 10 update started:\<newline>ab\<newline>'')
        \<lparr>pos = 1000, fh = 1000, tstate = State0, reads = []\<rparr> =
       Inr \<lparr>pos = 50, fh = 50,
            tstate = \<lparr>active_app = Some ''10'', active_status = Skachivanie,
                      app_status = [(''10'', Skachivanie)], seen = [(''10'', 7)],
                      speed = None, speed_wall_ts = 0, speed_log_ts = [], speed_src = []\<rparr>,
            reads = [Seek 0, Read 0, Read 47, Read 50, Read 50]\<rparr>"
  proof -
    let ?C = "''[2024-01-01 10:00:00] AppID 10 update started:\<newline>ab\<newline>''"
    let ?T = "\<lparr>pos = 1000, fh = 1000, tstate = State0, reads = []\<rparr>"
    have len: "length ?C = 50" by simp
    have w: "window_start ?C = 0" by (simp add: window_start_def)
    have h: "length ?C < pos ?T" by simp
    have e: "tail_iter (feed_line (\<lambda>o'. 7)) (Some ?C) ?T =
         Inr \<lparr>pos = 50, fh = 50,
              tstate = \<lparr>active_app = Some ''10'', active_status = Skachivanie,
                        app_status = [(''10'', Skachivanie)], seen = [(''10'', 7)],
                        speed = None, speed_wall_ts = 0, speed_log_ts = [], speed_src = []\<rparr>,
              reads = [Seek 0, Read 0, Read 47, Read 50, Read 50]\<rparr>"
      by code_simp
    from rotation_reopen[OF h, of "feed_line (\<lambda>o'. 7)"] obtain k ls where
      r: "(window_start ?C = 0 \<longrightarrow> k = 0)
           \<and> (0 < window_start ?C \<longrightarrow>
                window_start ?C < k
                \<and> line_ok (take (k - window_start ?C) (drop (window_start ?C) ?C))
                          (drop k ?C))
           \<and> k \<le> length ?C
           \<and> lines_ok ls (drop k ?C)
           \<and> tail_iter (feed_line (\<lambda>o'. 7)) (Some ?C) ?T =
               (case feed_all (feed_line (\<lambda>o'. 7)) k ls (tstate ?T) of
                  Inl e \<Rightarrow> Inl e
                | Inr s \<Rightarrow>
                    Inr \<lparr>pos = length ?C, fh = length ?C, tstate = s,
                         reads = reads ?T @ [Seek (window_start ?C)]
                                 @ (if 0 < window_start ?C
                                    then [Read (window_start ?C)] else [])
                                 @ map Read (line_offsets k ls)
                                 @ [Read (length ?C), Read (length ?C)]\<rparr>)
           \<and> (\<forall>o'\<in>set (line_offsets k ls). o' \<le> length ?C)
           \<and> pos ?T \<notin> set ([window_start ?C] @ line_offsets k ls @ [length ?C])
           \<and> (length ?C = 50 \<and> pos ?T = 1000 \<longrightarrow>
                window_start ?C = 0 \<and> k = 0
                \<and> 1000 \<notin> set ([window_start ?C] @ line_offsets k ls @ [length ?C]))"
      by (elim exE) (rule that)
    note r1 = r[THEN conjunct1]
    note r4 = r[THEN conjunct2, THEN conjunct2, THEN conjunct2, THEN conjunct1]
    note r5 = r[THEN conjunct2, THEN conjunct2, THEN conjunct2, THEN conjunct2, THEN conjunct1]
    note r7 = r[THEN conjunct2, THEN conjunct2, THEN conjunct2, THEN conjunct2, THEN conjunct2,
                THEN conjunct2, THEN conjunct1]
    from r1 w have k0: "k = 0" by simp
    have a: "lines_ok ls ?C" using r4 k0 by simp
    have b: "tail_iter (feed_line (\<lambda>o'. 7)) (Some ?C) ?T =
             (case feed_all (feed_line (\<lambda>o'. 7)) k ls State0 of
                Inl e \<Rightarrow> Inl e
              | Inr s \<Rightarrow> Inr \<lparr>pos = 50, fh = 50, tstate = s,
                              reads = [Seek 0] @ map Read (line_offsets k ls) @ [Read 50, Read 50]\<rparr>)"
      using r5 unfolding w len by (simp split: sum.splits)
    have c: "1000 \<notin> set ([0] @ line_offsets k ls @ [50])"
      using r7 unfolding w len by simp
    have "\<exists>k ls. k = 0
          \<and> lines_ok ls ?C
          \<and> tail_iter (feed_line (\<lambda>o'. 7)) (Some ?C) ?T =
             (case feed_all (feed_line (\<lambda>o'. 7)) k ls State0 of
                Inl e \<Rightarrow> Inl e
              | Inr s \<Rightarrow> Inr \<lparr>pos = 50, fh = 50, tstate = s,
                              reads = [Seek 0] @ map Read (line_offsets k ls) @ [Read 50, Read 50]\<rparr>)
          \<and> 1000 \<notin> set ([0] @ line_offsets k ls @ [50])"
      apply (rule exI[of _ k])
      apply (rule exI[of _ ls])
      apply (intro conjI)
         apply (rule k0)
        apply (rule a)
       apply (rule b)
      apply (rule c)
      done
    with h e show ?thesis by (intro conjI)
  qed
next
  show "length (replicate 199954 (CHR ''z'') @ ''\<newline>[2024-01-01 10:00:00] AppID 10 update started:\<newline>'')
     < pos \<lparr>pos = 300000, fh = 300000, tstate = State0, reads = []\<rparr>
   \<and> (\<exists>k ls. 2 < k \<and> k \<le> 200002
        \<and> line_ok (take (k - 2) (drop 2 (replicate 199954 (CHR ''z'') @ ''\<newline>[2024-01-01 10:00:00] AppID 10 update started:\<newline>'')))
             (drop k (replicate 199954 (CHR ''z'') @ ''\<newline>[2024-01-01 10:00:00] AppID 10 update started:\<newline>''))
        \<and> lines_ok ls (drop k (replicate 199954 (CHR ''z'') @ ''\<newline>[2024-01-01 10:00:00] AppID 10 update started:\<newline>''))
        \<and> tail_iter (feed_line (\<lambda>o'. 7))
            (Some (replicate 199954 (CHR ''z'') @ ''\<newline>[2024-01-01 10:00:00] AppID 10 update started:\<newline>''))
            \<lparr>pos = 300000, fh = 300000, tstate = State0, reads = []\<rparr> =
           (case feed_all (feed_line (\<lambda>o'. 7)) k ls State0 of
              Inl e \<Rightarrow> Inl e
            | Inr s \<Rightarrow> Inr \<lparr>pos = 200002, fh = 200002, tstate = s,
                            reads = [Seek 2, Read 2] @ map Read (line_offsets k ls)
                                    @ [Read 200002, Read 200002]\<rparr>))
   \<and> tail_iter (feed_line (\<lambda>o'. 7))
        (Some (replicate 199954 (CHR ''z'') @ ''\<newline>[2024-01-01 10:00:00] AppID 10 update started:\<newline>''))
        \<lparr>pos = 300000, fh = 300000, tstate = State0, reads = []\<rparr> =
       Inr \<lparr>pos = 200002, fh = 200002,
            tstate = \<lparr>active_app = Some ''10'', active_status = Skachivanie,
                      app_status = [(''10'', Skachivanie)], seen = [(''10'', 7)],
                      speed = None, speed_wall_ts = 0, speed_log_ts = [], speed_src = []\<rparr>,
            reads = [Seek 2, Read 2, Read 199955, Read 200002, Read 200002]\<rparr>"
  proof -
    define Z where "Z = replicate 199954 (CHR ''z'')"
    define L where "L = ''[2024-01-01 10:00:00] AppID 10 update started:\<newline>''"
    define C where "C = Z @ CHR 0x0A # L"
    define F where "F = feed_line (\<lambda>o'. 7)"
    define S where "S = \<lparr>active_app = Some ''10'', active_status = Skachivanie,
                        app_status = [(''10'', Skachivanie)], seen = [(''10'', 7::real)],
                        speed = None, speed_wall_ts = 0, speed_log_ts = [], speed_src = []\<rparr>"
    let ?T = "\<lparr>pos = 300000, fh = 300000, tstate = State0, reads = []\<rparr>"
    have lz: "length Z = 199954" by (simp add: Z_def)
    have pz: "\<forall>c\<in>set (drop 2 Z). \<not> eol c" by (auto simp: Z_def eol_def dest: in_set_dropD)
    have lL: "length L = 47" by (simp add: L_def)
    have fL: "file_lines L = [L]" unfolding L_def by code_simp
    have pL: "parse_line 7 (strip L) State0 = Inr S" unfolding L_def S_def by code_simp
    have len: "length C = 200002" by (simp add: C_def lz lL)
    have w: "window_start C = 2" by (simp add: window_start_def len)
    have h: "length C < pos ?T" by (simp add: len)
    have d2: "drop 2 C = drop 2 Z @ CHR 0x0A # L" by (simp add: C_def lz)
    have f1: "first_line (drop 2 Z @ CHR 0x0A # L) = drop 2 Z @ [CHR 0x0A]"
      using pz by (rule first_line_plain_run)
    have l1: "length (drop 2 Z @ [CHR 0x0A]) = 199953" by (simp add: lz)
    have st: "nat (max 0 (int (length C) - 200000)) = 2" by (simp add: len)
    have o1: "2 + length (first_line (drop 2 C)) = 199955" unfolding d2 f1 by (simp add: lz)
    have rest: "drop 199955 C = L" by (simp add: C_def lz)
    have dend: "drop 200002 C = []" by (simp add: len)
    have fF: "F 199955 L State0 = Inr S" by (simp add: F_def feed_line_def pL)
    have rp: "replay F [L] 199955 State0 [Seek 2, Read 2] =
                Inr (200002, S, [Seek 2, Read 2, Read 199955, Read 200002])"
      by (simp add: F_def feed_line_def pL lL)
    have ro: "reopen_tail F C ?T =
                Inr \<lparr>pos = 200002, fh = 200002, tstate = S,
                     reads = [Seek 2, Read 2, Read 199955, Read 200002]\<rparr>"
      unfolding reopen_tail_def Let_def st o1
      by (simp add: rest fL fF lL)
    have e: "tail_iter F (Some C) ?T =
                Inr \<lparr>pos = 200002, fh = 200002, tstate = S,
                     reads = [Seek 2, Read 2, Read 199955, Read 200002, Read 200002]\<rparr>"
      unfolding tail_iter_def by (simp add: len ro dend)
    from rotation_reopen[OF h, of F] obtain k ls where
      r: "(window_start C = 0 \<longrightarrow> k = 0)
           \<and> (0 < window_start C \<longrightarrow>
                window_start C < k
                \<and> line_ok (take (k - window_start C) (drop (window_start C) C))
                          (drop k C))
           \<and> k \<le> length C
           \<and> lines_ok ls (drop k C)
           \<and> tail_iter F (Some C) ?T =
               (case feed_all F k ls (tstate ?T) of
                  Inl e \<Rightarrow> Inl e
                | Inr s \<Rightarrow>
                    Inr \<lparr>pos = length C, fh = length C, tstate = s,
                         reads = reads ?T @ [Seek (window_start C)]
                                 @ (if 0 < window_start C
                                    then [Read (window_start C)] else [])
                                 @ map Read (line_offsets k ls)
                                 @ [Read (length C), Read (length C)]\<rparr>)
           \<and> (\<forall>o'\<in>set (line_offsets k ls). o' \<le> length C)
           \<and> pos ?T \<notin> set ([window_start C] @ line_offsets k ls @ [length C])
           \<and> (length C = 50 \<and> pos ?T = 1000 \<longrightarrow>
                window_start C = 0 \<and> k = 0
                \<and> 1000 \<notin> set ([window_start C] @ line_offsets k ls @ [length C]))"
      by (elim exE) (rule that)
    note r2 = r[THEN conjunct2, THEN conjunct1]
    note r3 = r[THEN conjunct2, THEN conjunct2, THEN conjunct1]
    note r4 = r[THEN conjunct2, THEN conjunct2, THEN conjunct2, THEN conjunct1]
    note r5 = r[THEN conjunct2, THEN conjunct2, THEN conjunct2, THEN conjunct2, THEN conjunct1]
    have a1: "2 < k" using r2 w by simp
    have a2: "k \<le> 200002" using r3 len by simp
    have a3: "line_ok (take (k - 2) (drop 2 C)) (drop k C)" using r2 w by simp
    have a4: "lines_ok ls (drop k C)" by (rule r4)
    have a5: "tail_iter F (Some C) ?T =
             (case feed_all F k ls State0 of
                Inl e \<Rightarrow> Inl e
              | Inr s \<Rightarrow> Inr \<lparr>pos = 200002, fh = 200002, tstate = s,
                              reads = [Seek 2, Read 2] @ map Read (line_offsets k ls)
                                      @ [Read 200002, Read 200002]\<rparr>)"
      using r5 unfolding w len by (simp split: sum.splits)
    have ex: "\<exists>k ls. 2 < k \<and> k \<le> 200002
          \<and> line_ok (take (k - 2) (drop 2 C)) (drop k C)
          \<and> lines_ok ls (drop k C)
          \<and> tail_iter F (Some C) ?T =
             (case feed_all F k ls State0 of
                Inl e \<Rightarrow> Inl e
              | Inr s \<Rightarrow> Inr \<lparr>pos = 200002, fh = 200002, tstate = s,
                              reads = [Seek 2, Read 2] @ map Read (line_offsets k ls)
                                      @ [Read 200002, Read 200002]\<rparr>)"
      apply (rule exI[of _ k])
      apply (rule exI[of _ ls])
      apply (intro conjI)
          apply (rule a1)
         apply (rule a2)
        apply (rule a3)
       apply (rule a4)
      apply (rule a5)
      done
    have "length C < pos ?T \<and> (\<exists>k ls. 2 < k \<and> k \<le> 200002
          \<and> line_ok (take (k - 2) (drop 2 C)) (drop k C)
          \<and> lines_ok ls (drop k C)
          \<and> tail_iter F (Some C) ?T =
             (case feed_all F k ls State0 of
                Inl e \<Rightarrow> Inl e
              | Inr s \<Rightarrow> Inr \<lparr>pos = 200002, fh = 200002, tstate = s,
                              reads = [Seek 2, Read 2] @ map Read (line_offsets k ls)
                                      @ [Read 200002, Read 200002]\<rparr>))
        \<and> tail_iter F (Some C) ?T =
                Inr \<lparr>pos = 200002, fh = 200002, tstate = S,
                     reads = [Seek 2, Read 2, Read 199955, Read 200002, Read 200002]\<rparr>"
      using h ex e by (intro conjI)
    then show ?thesis unfolding C_def Z_def L_def F_def S_def .
  qed
qed

section \<open>Replaying the same lines\<close>

lemma apply_event_status_rel:
  "map_of (app_status t) = B ++ map_of (app_status s) \<Longrightarrow>
   map_of (app_status (apply_event now ev t)) = B ++ map_of (app_status (apply_event now ev s))"
  by (cases ev) (auto simp: touch_def Let_def update_conv' set_speed_def)

lemma apply_event_seen_rel:
  "map_of (seen t) = B ++ map_of (seen s) \<Longrightarrow>
   map_of (seen (apply_event now ev t)) = B ++ map_of (seen (apply_event now ev s))"
  by (cases ev) (auto simp: touch_def Let_def update_conv' set_speed_def)

lemma apply_event_act_cong:
  "act t = act s \<Longrightarrow> act (apply_event now ev t) = act (apply_event now ev s)"
  by (cases ev) (auto simp: act_def touch_def Let_def set_speed_def)

lemma apply_event_activates:
  "activates ev \<Longrightarrow> act (apply_event now ev t) = act (apply_event now ev s)"
  by (cases ev) (auto simp: act_def touch_def Let_def)

lemma apply_event_no_active:
  "\<not> activates ev \<Longrightarrow> act s = (None, []) \<Longrightarrow> act (apply_event now ev s) = (None, [])"
  by (cases ev) (auto simp: act_def touch_def Let_def set_speed_def)

lemma run_lines_dict_rel:
  assumes "run_lines xs s = Inr s'"
      and "map_of (app_status t) = B ++ map_of (app_status s)"
      and "map_of (seen t) = C ++ map_of (seen s)"
  shows "\<exists>t'. run_lines xs t = Inr t'
            \<and> map_of (app_status t') = B ++ map_of (app_status s')
            \<and> map_of (seen t') = C ++ map_of (seen s')"
  using assms
proof (induction xs arbitrary: s t)
  case Nil
  then show ?case by simp
next
  case (Cons x xs)
  from Cons.prems(1) obtain s1 where
    s1: "parse_line (fst x) (snd x) s = Inr s1" "run_lines xs s1 = Inr s'"
    by (auto split: sum.splits)
  show ?case
  proof (cases "classify (snd x)")
    case (Inl e)
    with s1(1) show ?thesis by (simp add: parse_line_classify)
  next
    case (Inr oe)
    show ?thesis
    proof (cases oe)
      case None
      with Inr s1(1) have "s1 = s" "parse_line (fst x) (snd x) t = Inr t"
        by (simp_all add: parse_line_classify)
      with Cons.IH[OF s1(2), of t] Cons.prems(2,3) show ?thesis by simp
    next
      case (Some ev)
      with Inr s1(1) have e: "s1 = apply_event (fst x) ev s"
        "parse_line (fst x) (snd x) t = Inr (apply_event (fst x) ev t)"
        by (simp_all add: parse_line_classify)
      have "map_of (app_status (apply_event (fst x) ev t)) = B ++ map_of (app_status s1)"
        "map_of (seen (apply_event (fst x) ev t)) = C ++ map_of (seen s1)"
        unfolding e(1)
        using Cons.prems(2,3) by (simp_all add: apply_event_status_rel apply_event_seen_rel)
      from Cons.IH[OF s1(2) this] e(2) show ?thesis by simp
    qed
  qed
qed

lemma parse_line_act_cong:
  assumes "parse_line now line s = Inr s'" and "parse_line now line t = Inr t'"
      and "act t = act s \<or> activating_line line"
  shows "act t' = act s'"
proof (cases "classify line")
  case (Inl e)
  with assms(1) show ?thesis by (simp add: parse_line_classify)
next
  case (Inr oe)
  show ?thesis
  proof (cases oe)
    case None
    with Inr assms show ?thesis by (simp add: parse_line_classify activating_line_def)
  next
    case (Some ev)
    with Inr assms(1,2) have e: "s' = apply_event now ev s" "t' = apply_event now ev t"
      by (simp_all add: parse_line_classify)
    from assms(3) Inr Some have "act t = act s \<or> activates ev"
      by (simp add: activating_line_def)
    then show ?thesis
      unfolding e using apply_event_act_cong[of t s now ev] apply_event_activates[of ev now t s]
      by blast
  qed
qed

lemma run_lines_act:
  assumes "run_lines xs s = Inr s'" and "run_lines xs t = Inr t'"
      and "act t = act s \<or> (\<exists>x\<in>set xs. activating_line (snd x))"
  shows "act t' = act s'"
  using assms
proof (induction xs arbitrary: s t)
  case Nil
  then show ?case by simp
next
  case (Cons x xs)
  from Cons.prems(1) obtain s1 where
    s1: "parse_line (fst x) (snd x) s = Inr s1" "run_lines xs s1 = Inr s'"
    by (auto split: sum.splits)
  from Cons.prems(2) obtain t1 where
    t1: "parse_line (fst x) (snd x) t = Inr t1" "run_lines xs t1 = Inr t'"
    by (auto split: sum.splits)
  show ?case
  proof (cases "act t = act s \<or> activating_line (snd x)")
    case True
    from parse_line_act_cong[OF s1(1) t1(1) True] have "act t1 = act s1" .
    then show ?thesis using Cons.IH[OF s1(2) t1(2)] by simp
  next
    case False
    with Cons.prems(3) have "\<exists>x\<in>set xs. activating_line (snd x)" by auto
    then show ?thesis using Cons.IH[OF s1(2) t1(2)] by simp
  qed
qed

lemma parse_line_no_active:
  assumes "parse_line now line s = Inr s'" and "\<not> activating_line line" and "act s = (None, [])"
  shows "act s' = (None, [])"
proof (cases "classify line")
  case (Inl e)
  with assms(1) show ?thesis by (simp add: parse_line_classify)
next
  case (Inr oe)
  show ?thesis
  proof (cases oe)
    case None
    with Inr assms show ?thesis by (simp add: parse_line_classify)
  next
    case (Some ev)
    with Inr assms(1) have e: "s' = apply_event now ev s"
      by (simp add: parse_line_classify)
    from assms(2) Inr Some have "\<not> activates ev" by (simp add: activating_line_def)
    then show ?thesis unfolding e using assms(3) by (rule apply_event_no_active)
  qed
qed

lemma run_lines_no_active:
  assumes "run_lines xs s = Inr s'" and "\<not> (\<exists>x\<in>set xs. activating_line (snd x))"
      and "act s = (None, [])"
  shows "act s' = (None, [])"
  using assms
proof (induction xs arbitrary: s)
  case Nil
  then show ?case by simp
next
  case (Cons x xs)
  from Cons.prems(1) obtain s1 where
    s1: "parse_line (fst x) (snd x) s = Inr s1" "run_lines xs s1 = Inr s'"
    by (auto split: sum.splits)
  from Cons.prems(2) have n: "\<not> activating_line (snd x)" "\<not> (\<exists>x\<in>set xs. activating_line (snd x))"
    by auto
  from parse_line_no_active[OF s1(1) n(1) Cons.prems(3)] have "act s1 = (None, [])" .
  from Cons.IH[OF s1(2) n(2) this] show ?case .
qed

lemma map_add_same: "m ++ m = m"
  by (rule ext) (simp add: map_add_def split: option.splits)

lemma alist_eqI:
  "distinct (map fst xs) \<Longrightarrow> map fst xs = map fst ys \<Longrightarrow> map_of xs = map_of ys \<Longrightarrow> xs = ys"
proof (induction xs arbitrary: ys)
  case Nil
  then show ?case by simp
next
  case (Cons x xs)
  from Cons.prems(2) obtain y ys' where ys: "ys = y # ys'" "fst y = fst x" "map fst xs = map fst ys'"
    by (cases ys) auto
  have nx: "fst x \<notin> fst ` set xs" using Cons.prems(1) by simp
  then have ny: "fst x \<notin> fst ` set ys'" using ys(3) by (metis set_map)
  have eq: "map_of (x # xs) j = map_of (y # ys') j" for j
    using Cons.prems(3) unfolding ys(1) by (rule fun_cong)
  from eq[of "fst x"] have "map_of (x # xs) (fst x) = map_of (y # ys') (fst x)" .
  then have "snd x = snd y" using ys(2) by simp
  then have xy: "x = y" using ys(2) by (simp add: prod_eq_iff)
  have "map_of xs j = map_of ys' j" for j
  proof (cases "j = fst x")
    case True
    then show ?thesis using nx ny by (simp add: map_of_eq_None_iff[THEN iffD2])
  next
    case False
    from eq[of j] show ?thesis using False ys(2) by simp
  qed
  then have "map_of xs = map_of ys'" by (rule ext)
  with Cons.IH[of ys'] Cons.prems(1) ys(3) have "xs = ys'" by simp
  then show ?case using xy ys(1) by simp
qed

lemma apply_event_keys_mono:
  "fst ` set (app_status s) \<subseteq> fst ` set (app_status (apply_event now ev s))"
  by (cases ev) (auto simp: touch_def Let_def set_speed_def dom_update)

lemma apply_event_keys_same:
  assumes "map fst (app_status t) = K"
      and "fst ` set (app_status (apply_event now ev s)) \<subseteq> set K"
  shows "map fst (app_status (apply_event now ev t)) = K"
  using assms
  by (cases ev) (auto simp: touch_def Let_def set_speed_def dom_update keys_update
                   split: if_splits)

lemma apply_event_distinct:
  "distinct (map fst (app_status s)) \<Longrightarrow> distinct (map fst (app_status (apply_event now ev s)))"
  by (cases ev) (auto simp: touch_def Let_def set_speed_def distinct_update)

lemma parse_line_cases:
  assumes "parse_line now line s = Inr s'"
  obtains "classify line = Inr None" and "s' = s"
        | ev where "classify line = Inr (Some ev)" and "s' = apply_event now ev s"
  using assms by (auto simp: parse_line_classify split: sum.splits option.splits)

lemma run_lines_keys_mono:
  "run_lines xs s = Inr s' \<Longrightarrow> fst ` set (app_status s) \<subseteq> fst ` set (app_status s')"
proof (induction xs arbitrary: s)
  case Nil
  then show ?case by simp
next
  case (Cons x xs)
  from Cons.prems obtain s1 where
    s1: "parse_line (fst x) (snd x) s = Inr s1" "run_lines xs s1 = Inr s'"
    by (auto split: sum.splits)
  have "fst ` set (app_status s) \<subseteq> fst ` set (app_status s1)"
    using s1(1) by (rule parse_line_cases) (simp_all add: apply_event_keys_mono)
  with Cons.IH[OF s1(2)] show ?case by blast
qed

lemma run_lines_distinct:
  "run_lines xs s = Inr s' \<Longrightarrow> distinct (map fst (app_status s)) \<Longrightarrow>
   distinct (map fst (app_status s'))"
proof (induction xs arbitrary: s)
  case Nil
  then show ?case by simp
next
  case (Cons x xs)
  from Cons.prems(1) obtain s1 where
    s1: "parse_line (fst x) (snd x) s = Inr s1" "run_lines xs s1 = Inr s'"
    by (auto split: sum.splits)
  have "distinct (map fst (app_status s1))"
    using s1(1) by (rule parse_line_cases) (simp_all add: Cons.prems(2) apply_event_distinct)
  with Cons.IH[OF s1(2)] show ?case .
qed

lemma run_lines_keys_same:
  assumes "run_lines xs s = Inr s'" and "run_lines xs t = Inr t'"
      and "map fst (app_status t) = K" and "fst ` set (app_status s') \<subseteq> set K"
  shows "map fst (app_status t') = K"
  using assms
proof (induction xs arbitrary: s t)
  case Nil
  then show ?case by simp
next
  case (Cons x xs)
  from Cons.prems(1) obtain s1 where
    s1: "parse_line (fst x) (snd x) s = Inr s1" "run_lines xs s1 = Inr s'"
    by (auto split: sum.splits)
  from Cons.prems(2) obtain t1 where
    t1: "parse_line (fst x) (snd x) t = Inr t1" "run_lines xs t1 = Inr t'"
    by (auto split: sum.splits)
  have sub: "fst ` set (app_status s1) \<subseteq> set K"
    using run_lines_keys_mono[OF s1(2)] Cons.prems(4) by blast
  have "map fst (app_status t1) = K"
  proof (rule parse_line_cases[OF s1(1)])
    assume "classify (snd x) = Inr None"
    with t1(1) Cons.prems(3) show ?thesis by (simp add: parse_line_classify)
  next
    fix ev assume e: "classify (snd x) = Inr (Some ev)" "s1 = apply_event (fst x) ev s"
    with t1(1) have "t1 = apply_event (fst x) ev t" by (simp add: parse_line_classify)
    then show ?thesis using apply_event_keys_same[OF Cons.prems(3), of "fst x" ev s] sub e(2)
      by simp
  qed
  from Cons.IH[OF s1(2) t1(2) this Cons.prems(4)] show ?case .
qed

lemma apply_event_sample_rel:
  assumes "act t = act s \<or> act s = (None, [])"
      and "smp t = smp s \<or> smp t = (None, 0) \<or> smp t = b"
  shows "(act (apply_event now ev t) = act (apply_event now ev s)
            \<or> act (apply_event now ev s) = (None, []))
       \<and> (smp (apply_event now ev t) = smp (apply_event now ev s)
            \<or> smp (apply_event now ev t) = (None, 0)
            \<or> smp (apply_event now ev t) = b)"
  using assms
  by (cases ev) (auto simp: act_def smp_def touch_def Let_def set_speed_def)

lemma apply_event_source_rel:
  assumes "(speed_log_ts t, speed_src t) = (speed_log_ts s, speed_src s)
         \<or> (speed_log_ts t, speed_src t) = c"
  shows "(speed_log_ts (apply_event now ev t), speed_src (apply_event now ev t)) =
           (speed_log_ts (apply_event now ev s), speed_src (apply_event now ev s))
       \<or> (speed_log_ts (apply_event now ev t), speed_src (apply_event now ev t)) = c"
  using assms
  by (cases ev) (auto simp: touch_def Let_def set_speed_def)

lemma run_lines_sample_rel:
  assumes "run_lines xs s = Inr s'" and "run_lines xs t = Inr t'"
      and "act t = act s \<or> act s = (None, [])"
      and "smp t = smp s \<or> smp t = (None, 0) \<or> smp t = b"
      and "(speed_log_ts t, speed_src t) = (speed_log_ts s, speed_src s)
         \<or> (speed_log_ts t, speed_src t) = c"
  shows "(smp t' = smp s' \<or> smp t' = (None, 0) \<or> smp t' = b)
       \<and> ((speed_log_ts t', speed_src t') = (speed_log_ts s', speed_src s')
          \<or> (speed_log_ts t', speed_src t') = c)"
  using assms
proof (induction xs arbitrary: s t)
  case Nil
  then show ?case by simp
next
  case (Cons x xs)
  from Cons.prems(1) obtain s1 where
    s1: "parse_line (fst x) (snd x) s = Inr s1" "run_lines xs s1 = Inr s'"
    by (auto split: sum.splits)
  from Cons.prems(2) obtain t1 where
    t1: "parse_line (fst x) (snd x) t = Inr t1" "run_lines xs t1 = Inr t'"
    by (auto split: sum.splits)
  have "(act t1 = act s1 \<or> act s1 = (None, []))
      \<and> (smp t1 = smp s1 \<or> smp t1 = (None, 0) \<or> smp t1 = b)
      \<and> ((speed_log_ts t1, speed_src t1) = (speed_log_ts s1, speed_src s1)
          \<or> (speed_log_ts t1, speed_src t1) = c)"
  proof (rule parse_line_cases[OF s1(1)])
    assume "classify (snd x) = Inr None" "s1 = s"
    with t1(1) Cons.prems(3,4,5) show ?thesis by (simp add: parse_line_classify)
  next
    fix ev assume e: "classify (snd x) = Inr (Some ev)" "s1 = apply_event (fst x) ev s"
    with t1(1) have t: "t1 = apply_event (fst x) ev t" by (simp add: parse_line_classify)
    show ?thesis
      unfolding e(2) t
      using apply_event_sample_rel[OF Cons.prems(3,4), of "fst x" ev]
        apply_event_source_rel[OF Cons.prems(5), of "fst x" ev]
      by blast
  qed
  then show ?case using Cons.IH[OF s1(2) t1(2)] by blast
qed

text \<open>
  Claim C1, amended.  With one clock reading for every line, parsing a sequence of lines
  a second time, after the state that parsing it from the empty state has reached,
  succeeds and leaves the status dictionary, the last-seen dictionary, the active
  subject and its cached status as they were.  Of the metric sample, the log time and
  the source tag are as they were, and the value with its time of receipt is as it
  was or the sample is absent: the end of an update discards the sample only when
  its subject is the active one, which can hold in the second pass and not in the
  first.
\<close>

theorem replay_keeps_tracking:
  assumes "run_lines (map (Pair now) ls) State0 = Inr s1"
  shows "\<exists>s2. run_lines (map (Pair now) ls) s1 = Inr s2
            \<and> active_app s2 = active_app s1
            \<and> active_status s2 = active_status s1
            \<and> app_status s2 = app_status s1
            \<and> seen s2 = seen s1
            \<and> speed_log_ts s2 = speed_log_ts s1
            \<and> speed_src s2 = speed_src s1
            \<and> ((speed s2 = speed s1 \<and> speed_wall_ts s2 = speed_wall_ts s1)
               \<or> (speed s2 = None \<and> speed_wall_ts s2 = 0))"
proof -
  let ?xs = "map (Pair now) ls"
  have "map_of (app_status s1) = map_of (app_status s1) ++ map_of (app_status State0)"
    "map_of (seen s1) = map_of (seen s1) ++ map_of (seen State0)"
    by (simp_all add: State0_def)
  from run_lines_dict_rel[OF assms this] obtain s2 where
    s2: "run_lines ?xs s1 = Inr s2"
      "map_of (app_status s2) = map_of (app_status s1)"
      "map_of (seen s2) = map_of (seen s1)"
    by (auto simp: map_add_same)
  have a: "act s2 = act s1"
  proof (cases "\<exists>x\<in>set ?xs. activating_line (snd x)")
    case True
    then show ?thesis using run_lines_act[OF assms s2(1)] by blast
  next
    case False
    have 0: "act State0 = (None, [])" by (simp add: act_def State0_def)
    from run_lines_no_active[OF assms False 0] have 1: "act s1 = (None, [])" .
    from run_lines_no_active[OF s2(1) False 1] have "act s2 = (None, [])" .
    with 1 show ?thesis by simp
  qed
  have k1: "map fst (app_status s1) = map fst (seen s1)"
    using assms by (rule run_lines_keys) (simp add: State0_def)
  have k2: "map fst (app_status s2) = map fst (seen s2)"
    using s2(1) k1 by (rule run_lines_keys)
  have ks: "map fst (app_status s2) = map fst (app_status s1)"
    using run_lines_keys_same[OF assms s2(1)] by simp
  have d: "distinct (map fst (app_status s1))"
    using assms by (rule run_lines_distinct) (simp add: State0_def)
  then have d2: "distinct (map fst (app_status s2))" using ks by simp
  have st: "app_status s2 = app_status s1"
    using d2 ks s2(2) by (rule alist_eqI)
  have se: "seen s2 = seen s1"
  proof (rule alist_eqI)
    show "distinct (map fst (seen s2))" using d2 k2 by simp
    show "map fst (seen s2) = map fst (seen s1)" using ks k1 k2 by simp
    show "map_of (seen s2) = map_of (seen s1)" by (rule s2(3))
  qed
  have i1: "act s1 = act State0 \<or> act State0 = (None, [])" by (simp add: act_def State0_def)
  have i2: "smp s1 = smp State0 \<or> smp s1 = (None, 0) \<or> smp s1 = smp s1" by simp
  have i3: "(speed_log_ts s1, speed_src s1) = (speed_log_ts State0, speed_src State0)
         \<or> (speed_log_ts s1, speed_src s1) = (speed_log_ts s1, speed_src s1)" by simp
  from run_lines_sample_rel[OF assms s2(1) i1 i2 i3]
  have m: "(smp s2 = smp s1 \<or> smp s2 = (None, 0))
         \<and> (speed_log_ts s2, speed_src s2) = (speed_log_ts s1, speed_src s1)"
    by blast
  show ?thesis using s2(1) a st se m by (auto simp: act_def smp_def)
qed

theorem replay_keeps_tracking_witness:
  "run_lines (map (Pair 1) [''[2024-01-01 10:00:01] Current download rate: 12.5 Mbps'',
                            ''[2024-01-01 10:05:01] AppID 10 finished update'',
                            ''[2024-01-01 10:06:00] AppID 10 update started:'']) State0 =
     Inr \<lparr>active_app = Some ''10'', active_status = Skachivanie,
          app_status = [(''10'', Skachivanie)], seen = [(''10'', 1)],
          speed = Some 12.5, speed_wall_ts = 1, speed_log_ts = ''2024-01-01 10:00:01'',
          speed_src = ''rate''\<rparr>
   \<and> (\<exists>s2. run_lines (map (Pair 1) [''[2024-01-01 10:00:01] Current download rate: 12.5 Mbps'',
                            ''[2024-01-01 10:05:01] AppID 10 finished update'',
                            ''[2024-01-01 10:06:00] AppID 10 update started:''])
               \<lparr>active_app = Some ''10'', active_status = Skachivanie,
                app_status = [(''10'', Skachivanie)], seen = [(''10'', 1)],
                speed = Some 12.5, speed_wall_ts = 1, speed_log_ts = ''2024-01-01 10:00:01'',
                speed_src = ''rate''\<rparr> = Inr s2
            \<and> active_app s2 = Some ''10'' \<and> active_status s2 = Skachivanie
            \<and> app_status s2 = [(''10'', Skachivanie)]
            \<and> seen s2 = [(''10'', 1)]
            \<and> speed_log_ts s2 = ''2024-01-01 10:00:01''
            \<and> speed_src s2 = ''rate''
            \<and> ((speed s2 = Some 12.5 \<and> speed_wall_ts s2 = 1)
               \<or> (speed s2 = None \<and> speed_wall_ts s2 = 0)))"
proof -
  have r: "run_lines (map (Pair 1) [''[2024-01-01 10:00:01] Current download rate: 12.5 Mbps'',
                            ''[2024-01-01 10:05:01] AppID 10 finished update'',
                            ''[2024-01-01 10:06:00] AppID 10 update started:'']) State0 =
     Inr \<lparr>active_app = Some ''10'', active_status = Skachivanie,
          app_status = [(''10'', Skachivanie)], seen = [(''10'', 1)],
          speed = Some 12.5, speed_wall_ts = 1, speed_log_ts = ''2024-01-01 10:00:01'',
          speed_src = ''rate''\<rparr>"
    by code_simp
  from replay_keeps_tracking[OF r] r show ?thesis by simp
qed


text \<open>
  Claim C1 as stated fails: a rate line, the end of the update of subject 10 and the
  start of an update of subject 10, parsed once from the empty state, leave the sample
  12.5; parsed twice, the second pass finds subject 10 active when its update ends,
  and the sample is absent.
\<close>

theorem replay_twice_counterexample:
  "run_lines (map (Pair 1) [''[2024-01-01 10:00:01] Current download rate: 12.5 Mbps'',
                            ''[2024-01-01 10:05:01] AppID 10 finished update'',
                            ''[2024-01-01 10:06:00] AppID 10 update started:'']) State0 =
     Inr \<lparr>active_app = Some ''10'', active_status = Skachivanie,
          app_status = [(''10'', Skachivanie)], seen = [(''10'', 1)],
          speed = Some 12.5, speed_wall_ts = 1, speed_log_ts = ''2024-01-01 10:00:01'',
          speed_src = ''rate''\<rparr>
   \<and> run_lines (map (Pair 1) ([''[2024-01-01 10:00:01] Current download rate: 12.5 Mbps'',
                            ''[2024-01-01 10:05:01] AppID 10 finished update'',
                            ''[2024-01-01 10:06:00] AppID 10 update started:'']
                         @ [''[2024-01-01 10:00:01] Current download rate: 12.5 Mbps'',
                            ''[2024-01-01 10:05:01] AppID 10 finished update'',
                            ''[2024-01-01 10:06:00] AppID 10 update started:''])) State0 =
     Inr \<lparr>active_app = Some ''10'', active_status = Skachivanie,
          app_status = [(''10'', Skachivanie)], seen = [(''10'', 1)],
          speed = None, speed_wall_ts = 0, speed_log_ts = ''2024-01-01 10:00:01'',
          speed_src = ''rate''\<rparr>"
  by code_simp

end
